theory Spec2Isabelle
  imports Complex_Main "HOL-Library.Word"
begin

section \<open>Numbers, typed arrays and errors\<close>

text \<open>
  The voice overlay (\<^verbatim>\<open>VoiceChatOverlay\<close>, in \<^verbatim>\<open>src/components/MessageBubble.tsx\<close>)
  works on JavaScript numbers and typed arrays.

  A \<^verbatim>\<open>Float32Array\<close> element or a \<^verbatim>\<open>Number\<close> is a \<open>number\<close>: a finite value, carried
  as the real number it denotes, or one of the three non-finite values. Every arithmetic
  step of the codec is exact on finite values: a float32 times \<open>2^15\<close> is representable
  as a double, and a 16-bit integer divided by \<open>2^15\<close> is representable as a float32. So
  the real number is the float, and a statement proved for every real holds for every float.

  An \<^verbatim>\<open>Int16Array\<close> is a list of \<open>16 word\<close> (read with \<open>sint\<close>), a \<^verbatim>\<open>Uint8Array\<close> a list of
  \<open>8 word\<close>. A binary string (every code unit below 256) is a \<open>string\<close>: the character
  with code \<open>n\<close> is \<open>char_of n\<close>.
\<close>

datatype number = Num real | NaN | PosInfinity | NegInfinity

datatype error = RangeError | NotSupportedError | InvalidCharacterError

text \<open>\<^verbatim>\<open>data[i] * 32768\<close> and \<^verbatim>\<open>x / 32768.0\<close> on numbers.\<close>

fun times_32768 :: "number \<Rightarrow> number" where
  "times_32768 (Num x) = Num (x * 32768)"
| "times_32768 NaN = NaN"
| "times_32768 PosInfinity = PosInfinity"
| "times_32768 NegInfinity = NegInfinity"

fun divide_32768 :: "number \<Rightarrow> number" where
  "divide_32768 (Num x) = Num (x / 32768)"
| "divide_32768 NaN = NaN"
| "divide_32768 PosInfinity = PosInfinity"
| "divide_32768 NegInfinity = NegInfinity"

text \<open>
  Storing a number into an \<^verbatim>\<open>Int16Array\<close> applies ECMAScript's \<^verbatim>\<open>ToInt16\<close>: a non-finite
  value becomes 0; a finite one is truncated towards zero, reduced modulo \<open>2^16\<close> and read
  as two's complement. \<open>word_of_int\<close> is the reduction, \<open>sint\<close> the reading.
\<close>

definition truncate_number :: "real \<Rightarrow> int" where
  "truncate_number x = (if x < 0 then - \<lfloor>- x\<rfloor> else \<lfloor>x\<rfloor>)"

fun ToInt16 :: "number \<Rightarrow> 16 word" where
  "ToInt16 (Num x) = word_of_int (truncate_number x)"
| "ToInt16 NaN = 0"
| "ToInt16 PosInfinity = 0"
| "ToInt16 NegInfinity = 0"

text \<open>
  Passing a number where Web IDL expects an \<^verbatim>\<open>unsigned long\<close> (the length of
  \<^verbatim>\<open>createBuffer\<close>): truncation and reduction modulo \<open>2^32\<close>, non-finite values become 0.
\<close>

fun ToUint32 :: "number \<Rightarrow> nat" where
  "ToUint32 (Num x) = nat (truncate_number x mod 2 ^ 32)"
| "ToUint32 NaN = 0"
| "ToUint32 PosInfinity = 0"
| "ToUint32 NegInfinity = 0"

text \<open>The quotient of two array lengths as a JavaScript number.\<close>

definition divide_lengths :: "nat \<Rightarrow> nat \<Rightarrow> number" where
  "divide_lengths a b =
     (if b = 0 then (if a = 0 then NaN else PosInfinity) else Num (real a / real b))"

text \<open>
  Two typed arrays over one buffer share its bytes. The platform's byte order is
  little-endian: a 16-bit element is its low byte followed by its high byte.
  \<^verbatim>\<open>new Int16Array(buffer)\<close> throws a \<^verbatim>\<open>RangeError\<close> when the buffer's byte length is odd.
\<close>

definition bytes_of_int16 :: "16 word \<Rightarrow> 8 word list" where
  "bytes_of_int16 w = [of_nat (unat w mod 256), of_nat (unat w div 256)]"

definition Uint8Array_view :: "16 word list \<Rightarrow> 8 word list" where
  "Uint8Array_view int16 = concat (map bytes_of_int16 int16)"

fun int16_of_bytes :: "8 word list \<Rightarrow> 16 word list" where
  "int16_of_bytes (lo # hi # rest) = of_nat (unat lo + 256 * unat hi) # int16_of_bytes rest"
| "int16_of_bytes [b] = []"
| "int16_of_bytes [] = []"

definition Int16Array_view :: "8 word list \<Rightarrow> error + 16 word list" where
  "Int16Array_view bytes =
     (if odd (length bytes) then Inl RangeError else Inr (int16_of_bytes bytes))"

section \<open>Base64: \<^verbatim>\<open>btoa\<close> and \<^verbatim>\<open>atob\<close>\<close>

text \<open>
  The two platform functions the codec calls. \<^verbatim>\<open>btoa\<close> is RFC 4648 base64 with padding.
  \<^verbatim>\<open>atob\<close> is the forgiving decoder of the HTML standard: ASCII whitespace is removed; when the
  length is then a multiple of 4, one or two trailing \<^verbatim>\<open>=\<close> are removed; a length of 1 modulo 4
  or a character outside the alphabet throws \<^verbatim>\<open>InvalidCharacterError\<close>; the 6-bit values are
  packed into bytes and leftover bits are dropped.
\<close>

definition b64_char :: "nat \<Rightarrow> char" where
  "b64_char i =
     (if i < 26 then char_of (i + 65)
      else if i < 52 then char_of (i + 71)
      else if i < 62 then char_of (i - 4)
      else if i = 62 then CHR ''+'' else CHR ''/'')"

definition b64_value :: "char \<Rightarrow> nat option" where
  "b64_value c =
     (let n = (of_char c :: nat) in
      if 65 \<le> n \<and> n \<le> 90 then Some (n - 65)
      else if 97 \<le> n \<and> n \<le> 122 then Some (n - 71)
      else if 48 \<le> n \<and> n \<le> 57 then Some (n + 4)
      else if n = 43 then Some 62
      else if n = 47 then Some 63
      else None)"

fun btoa :: "string \<Rightarrow> string" where
  "btoa (a # b # c # rest) =
     (let x = (of_char a :: nat); y = (of_char b :: nat); z = (of_char c :: nat) in
      [b64_char (x div 4), b64_char ((x mod 4) * 16 + y div 16),
       b64_char ((y mod 16) * 4 + z div 64), b64_char (z mod 64)] @ btoa rest)"
| "btoa [a, b] =
     (let x = (of_char a :: nat); y = (of_char b :: nat) in
      [b64_char (x div 4), b64_char ((x mod 4) * 16 + y div 16),
       b64_char ((y mod 16) * 4), CHR ''=''])"
| "btoa [a] =
     (let x = (of_char a :: nat) in
      [b64_char (x div 4), b64_char ((x mod 4) * 16), CHR ''='', CHR ''=''])"
| "btoa [] = []"

definition ascii_whitespace :: "char \<Rightarrow> bool" where
  "ascii_whitespace c = ((of_char c :: nat) \<in> {9, 10, 12, 13, 32})"

definition strip_padding :: "string \<Rightarrow> string" where
  "strip_padding s =
     (if length s mod 4 = 0 \<and> s \<noteq> [] \<and> last s = CHR ''='' then
        (if butlast s \<noteq> [] \<and> last (butlast s) = CHR ''='' then butlast (butlast s)
         else butlast s)
      else s)"

fun pack_sextets :: "nat list \<Rightarrow> string" where
  "pack_sextets (p # q # r # s # rest) =
     [char_of (p * 4 + q div 16), char_of ((q mod 16) * 16 + r div 4),
      char_of ((r mod 4) * 64 + s)] @ pack_sextets rest"
| "pack_sextets [p, q, r] = [char_of (p * 4 + q div 16), char_of ((q mod 16) * 16 + r div 4)]"
| "pack_sextets [p, q] = [char_of (p * 4 + q div 16)]"
| "pack_sextets [p] = []"
| "pack_sextets [] = []"

definition atob :: "string \<Rightarrow> error + string" where
  "atob s =
     (let d = strip_padding (filter (\<lambda>c. \<not> ascii_whitespace c) s) in
      if length d mod 4 = 1 then Inl InvalidCharacterError
      else (case those (map b64_value d) of
              None \<Rightarrow> Inl InvalidCharacterError
            | Some vs \<Rightarrow> Inr (pack_sextets vs)))"

section \<open>The audio codec\<close>

text \<open>
  \<^verbatim>\<open>createBlob\<close>: the first loop stores \<^verbatim>\<open>data[i] * 32768\<close> into an \<^verbatim>\<open>Int16Array\<close>, the second
  turns the bytes of its buffer into a binary string, which \<^verbatim>\<open>btoa\<close> encodes.
\<close>

record Blob =
  data :: string
  mimeType :: string

definition createBlob :: "number list \<Rightarrow> Blob" where
  "createBlob samples =
     (let int16 = map (\<lambda>x. ToInt16 (times_32768 x)) samples;
          bytes = Uint8Array_view int16;
          binary = map (\<lambda>b. char_of (unat b)) bytes;
          base64 = btoa binary
      in \<lparr>data = base64, mimeType = ''audio/pcm;rate=16000''\<rparr>)"

text \<open>\<^verbatim>\<open>decode\<close>: \<^verbatim>\<open>atob\<close>, then every code unit stored into a \<^verbatim>\<open>Uint8Array\<close>.\<close>

definition decode :: "string \<Rightarrow> error + 8 word list" where
  "decode base64 =
     (case atob base64 of
        Inl e \<Rightarrow> Inl e
      | Inr binaryString \<Rightarrow> Inr (map (\<lambda>c. of_nat (of_char c)) binaryString))"

text \<open>
  An \<^verbatim>\<open>AudioBuffer\<close>. \<^verbatim>\<open>createBuffer\<close> throws \<^verbatim>\<open>NotSupportedError\<close> for zero channels or a
  zero length, and returns zero-filled channels otherwise (the rate and the channel count
  are taken to be ones the device supports; the overlay asks for one channel at 24000).
  \<^verbatim>\<open>duration\<close> is the length divided by the sample rate.
\<close>

record AudioBuffer =
  sampleRate :: real
  frames :: nat
  channels :: "number list list"

definition duration :: "AudioBuffer \<Rightarrow> real" where
  "duration buffer = real (frames buffer) / sampleRate buffer"

definition createBuffer :: "nat \<Rightarrow> number \<Rightarrow> real \<Rightarrow> error + AudioBuffer" where
  "createBuffer numberOfChannels len rate =
     (if numberOfChannels = 0 \<or> ToUint32 len = 0 then Inl NotSupportedError
      else Inr \<lparr>sampleRate = rate, frames = ToUint32 len,
                channels = replicate numberOfChannels (replicate (ToUint32 len) (Num 0))\<rparr>)"

text \<open>
  Reading a typed array past its end gives \<^verbatim>\<open>undefined\<close>, which the division turns into
  \<^verbatim>\<open>NaN\<close>; writing past the end of a typed array is ignored, which is what \<open>xs[i := v]\<close>
  does in HOL.
\<close>

definition read_sample :: "16 word list \<Rightarrow> nat \<Rightarrow> number" where
  "read_sample dataInt16 k =
     (if k < length dataInt16 then divide_32768 (Num (real_of_int (sint (dataInt16 ! k))))
      else NaN)"

text \<open>The inner loop of \<^verbatim>\<open>decodeAudioData\<close>, from index \<open>i\<close> on.\<close>

function fill_channel ::
  "16 word list \<Rightarrow> nat \<Rightarrow> nat \<Rightarrow> real \<Rightarrow> nat \<Rightarrow> number list \<Rightarrow> number list" where
  "fill_channel dataInt16 numChannels channel frameCount i channelData =
     (if real i < frameCount
      then fill_channel dataInt16 numChannels channel frameCount (Suc i)
             (channelData[i := read_sample dataInt16 (i * numChannels + channel)])
      else channelData)"
  by pat_completeness auto
termination
proof (relation "measure (\<lambda>(d, n, c, frameCount, i, cd). nat \<lceil>frameCount\<rceil> - i)")
  show "wf (measure (\<lambda>(d :: 16 word list, n :: nat, c :: nat, frameCount :: real, i :: nat,
                        cd :: number list). nat \<lceil>frameCount\<rceil> - i))"
    by simp
next
  fix dataInt16 :: "16 word list" and numChannels channel i :: nat
    and frameCount :: real and channelData :: "number list"
  assume "real i < frameCount"
  then have "int i < \<lceil>frameCount\<rceil>"
    by linarith
  then show "((dataInt16, numChannels, channel, frameCount, Suc i,
               channelData[i := read_sample dataInt16 (i * numChannels + channel)]),
              (dataInt16, numChannels, channel, frameCount, i, channelData))
             \<in> measure (\<lambda>(d, n, c, frameCount, i, cd). nat \<lceil>frameCount\<rceil> - i)"
    by simp
qed

declare fill_channel.simps [simp del]

text \<open>
  \<^verbatim>\<open>decodeAudioData\<close>. The frame count is not finite only when there are no channels, and
  then \<^verbatim>\<open>createBuffer\<close> has thrown before the loops start.
\<close>

definition decodeAudioData :: "8 word list \<Rightarrow> real \<Rightarrow> nat \<Rightarrow> error + AudioBuffer" where
  "decodeAudioData bytes rate numChannels =
     (case Int16Array_view bytes of
        Inl e \<Rightarrow> Inl e
      | Inr dataInt16 \<Rightarrow>
          (let frameCount = divide_lengths (length dataInt16) numChannels in
           case createBuffer numChannels frameCount rate of
             Inl e \<Rightarrow> Inl e
           | Inr buffer \<Rightarrow>
               (case frameCount of
                  Num q \<Rightarrow>
                    Inr (buffer\<lparr>channels :=
                           map (\<lambda>channel. fill_channel dataInt16 numChannels channel q 0
                                             (channels buffer ! channel))
                               [0..<numChannels]\<rparr>)
                | _ \<Rightarrow> Inr buffer)))"

section \<open>The voice overlay: state\<close>

text \<open>
  \<^verbatim>\<open>VoiceChatOverlay\<close> keeps React state (\<^verbatim>\<open>useState\<close>) and mutable refs (\<^verbatim>\<open>useRef\<close>).
  Streams, tracks, audio nodes, audio contexts and sessions are objects of the platform: the
  model names each by a number (a \<^verbatim>\<open>MediaStream\<close> by the list of its tracks) and appends every
  call the component makes on one of them to \<open>calls\<close>, in the order made. Calls that only
  route audio (\<^verbatim>\<open>connect\<close>) or write to the console are not recorded. \<open>Connect\<close> is
  \<^verbatim>\<open>ai.live.connect\<close>, \<open>SessionClose\<close> is \<^verbatim>\<open>close\<close> on a session, \<open>OnClose\<close> is the \<^verbatim>\<open>onClose\<close>
  prop of the component.

  Times are seconds on the output context's clock, as real numbers; \<^verbatim>\<open>currentTime\<close> is never
  negative. The source computes them as doubles, and the statements below use only the
  comparison and the one addition the source makes.
\<close>

record VoicePersona =
  voiceName :: string
  systemInstruction :: string

datatype call =
    TrackStop nat
  | ProcessorDisconnect nat
  | SourceDisconnect nat
  | ContextClose nat
  | BufferSourceStart nat real
  | BufferSourceStop nat
  | SendRealtimeInput Blob
  | Connect nat VoicePersona
  | SessionClose nat
  | OnClose

record overlay =
  selectedPersona :: VoicePersona
  isConnecting :: bool
  isConnected :: bool
  isMuted :: bool
  inputAudioContextRef :: "nat option"
  outputAudioContextRef :: "nat option"
  streamRef :: "nat list option"
  processorRef :: "nat option"
  sourceRef :: "nat option"
  nextStartTimeRef :: real
  audioSourcesRef :: "nat list"
  sessionRef :: "nat option"
  activeSessionRef :: "nat option"
  calls :: "call list"

text \<open>
  A function component is run again at every render, and the functions it defines
  (\<^verbatim>\<open>startSession\<close>, the handlers it installs, the click handlers) close over the state
  values of the render that created them: \<^verbatim>\<open>isConnecting\<close>, \<^verbatim>\<open>isConnected\<close>, \<^verbatim>\<open>isMuted\<close> and
  \<^verbatim>\<open>selectedPersona\<close> are constants of one render. A \<open>scope\<close> holds these values;
  \<open>render\<close> is the scope of a render of the present state. A setter changes the state, not
  the scope of a closure that exists already. Refs are shared by every closure.
\<close>

record scope =
  scope_selectedPersona :: VoicePersona
  scope_isConnecting :: bool
  scope_isConnected :: bool
  scope_isMuted :: bool

definition render :: "overlay \<Rightarrow> scope" where
  "render s = \<lparr>scope_selectedPersona = selectedPersona s, scope_isConnecting = isConnecting s,
               scope_isConnected = isConnected s, scope_isMuted = isMuted s\<rparr>"

text \<open>The component when it mounts: \<^verbatim>\<open>VOICE_PERSONAS[0]\<close>, every flag false, every ref empty.\<close>

definition VOICE_PERSONAS_0 :: VoicePersona where
  "VOICE_PERSONAS_0 =
     \<lparr>voiceName = ''Zephyr'',
      systemInstruction = ''You are a friendly, helpful, and concise AI assistant.''\<rparr>"

definition mounted :: overlay where
  "mounted =
     \<lparr>selectedPersona = VOICE_PERSONAS_0, isConnecting = False, isConnected = False,
      isMuted = False, inputAudioContextRef = None, outputAudioContextRef = None,
      streamRef = None, processorRef = None, sourceRef = None, nextStartTimeRef = 0,
      audioSourcesRef = [], sessionRef = None, activeSessionRef = None, calls = []\<rparr>"

section \<open>The voice overlay: operations\<close>

text \<open>
  What \<^verbatim>\<open>startSession\<close> gets from outside: the API key of the environment, the two audio
  contexts it constructs, the outcome of \<^verbatim>\<open>getUserMedia\<close> (\<open>None\<close> when the promise rejects)
  and the session \<^verbatim>\<open>ai.live.connect\<close> promises.
\<close>

record platform =
  API_KEY :: "string option"
  newInputContext :: nat
  newOutputContext :: nat
  getUserMedia :: "nat list option"
  newSession :: nat

text \<open>The \<^verbatim>\<open>catch\<close> block of \<^verbatim>\<open>startSession\<close>.\<close>

definition startSession_failed :: "overlay \<Rightarrow> overlay" where
  "startSession_failed s = s\<lparr>isConnecting := False, calls := calls s @ [OnClose]\<rparr>"

text \<open>
  \<^verbatim>\<open>startSession\<close>, called from the closure of scope \<open>r\<close>, is an \<^verbatim>\<open>async\<close> function with one
  \<^verbatim>\<open>await\<close>, on \<^verbatim>\<open>getUserMedia\<close>. \<open>startSession_sync\<close> is the part that runs at the call: the
  guard, which reads the flags of the scope, the key (an empty key is falsy, like a missing
  one) and the two contexts; its first component says whether the function now waits.
  \<open>startSession_resumed\<close> is the part that runs when \<^verbatim>\<open>getUserMedia\<close> has settled; it does not
  look at the flags again. Other handlers can run between the two. \<open>startSession\<close> is the
  run in which none does.
\<close>

definition startSession_sync :: "scope \<Rightarrow> platform \<Rightarrow> overlay \<Rightarrow> bool \<times> overlay" where
  "startSession_sync r p s =
     (if scope_isConnecting r \<or> scope_isConnected r then (False, s)
      else
        let s1 = s\<lparr>isConnecting := True\<rparr> in
        if API_KEY p = None \<or> API_KEY p = Some [] then (False, startSession_failed s1)
        else
          (True, s1\<lparr>inputAudioContextRef := Some (newInputContext p),
                    outputAudioContextRef := Some (newOutputContext p)\<rparr>))"

definition startSession_resumed :: "scope \<Rightarrow> platform \<Rightarrow> overlay \<Rightarrow> overlay" where
  "startSession_resumed r p s =
     (case getUserMedia p of
        None \<Rightarrow> startSession_failed s
      | Some stream \<Rightarrow>
          s\<lparr>streamRef := Some stream,
             calls := calls s @ [Connect (newSession p) (scope_selectedPersona r)],
             sessionRef := Some (newSession p)\<rparr>)"

definition startSession :: "scope \<Rightarrow> platform \<Rightarrow> overlay \<Rightarrow> overlay" where
  "startSession r p s =
     (case startSession_sync r p s of
        (True, s') \<Rightarrow> startSession_resumed r p s'
      | (False, s') \<Rightarrow> s')"

text \<open>\<^verbatim>\<open>sessionPromise.then(s => activeSessionRef.current = s)\<close>, when the promise resolves.\<close>

definition session_resolved :: "nat \<Rightarrow> overlay \<Rightarrow> overlay" where
  "session_resolved session s = s\<lparr>activeSessionRef := Some session\<rparr>"

text \<open>
  \<^verbatim>\<open>onopen\<close>: the flags, then the media stream source and the script processor (the two new
  nodes are given). The processor's \<^verbatim>\<open>onaudioprocess\<close> handler is created here, inside the
  call of \<^verbatim>\<open>startSession\<close> that connected.
\<close>

definition onopen :: "nat \<Rightarrow> nat \<Rightarrow> overlay \<Rightarrow> overlay" where
  "onopen source processor s =
     s\<lparr>isConnected := True, isConnecting := False,
        sourceRef := Some source, processorRef := Some processor\<rparr>"

text \<open>
  \<^verbatim>\<open>processor.onaudioprocess\<close>, the handler created by the \<^verbatim>\<open>startSession\<close> of scope \<open>r\<close>,
  on one captured frame. The \<^verbatim>\<open>isMuted\<close> it tests is the constant of that scope. The packet
  is sent once the session promise has resolved, which the model takes to be at once.
\<close>

definition onaudioprocess :: "scope \<Rightarrow> number list \<Rightarrow> overlay \<Rightarrow> overlay" where
  "onaudioprocess r inputData s =
     (if scope_isMuted r then s
      else s\<lparr>calls := calls s @ [SendRealtimeInput (createBlob inputData)]\<rparr>)"

text \<open>The mute button of a render of scope \<open>r\<close>: \<^verbatim>\<open>setIsMuted(!isMuted)\<close>.\<close>

definition toggle_mute :: "scope \<Rightarrow> overlay \<Rightarrow> overlay" where
  "toggle_mute r s = s\<lparr>isMuted := \<not> scope_isMuted r\<rparr>"

text \<open>
  A server message, reduced to the two fields \<^verbatim>\<open>onmessage\<close> reads:
  \<^verbatim>\<open>serverContent.modelTurn.parts[0].inlineData.data\<close> and \<^verbatim>\<open>serverContent.interrupted\<close>.
\<close>

record message =
  base64Audio :: "string option"
  interrupted :: bool

text \<open>\<^verbatim>\<open>Set.add\<close> and \<^verbatim>\<open>Set.delete\<close> on a set kept in insertion order.\<close>

definition set_add :: "nat \<Rightarrow> nat list \<Rightarrow> nat list" where
  "set_add x xs = (if x \<in> set xs then xs else xs @ [x])"

definition set_delete :: "nat \<Rightarrow> nat list \<Rightarrow> nat list" where
  "set_delete x xs = filter (\<lambda>y. y \<noteq> x) xs"

text \<open>The second half of \<^verbatim>\<open>onmessage\<close>: the interruption.\<close>

definition handle_interruption :: "message \<Rightarrow> overlay \<Rightarrow> overlay" where
  "handle_interruption msg s =
     (if interrupted msg
      then s\<lparr>calls := calls s @ map BufferSourceStop (audioSourcesRef s),
             audioSourcesRef := [], nextStartTimeRef := 0\<rparr>
      else s)"

text \<open>The queueing of a decoded buffer on the new source node, at device time \<open>currentTime\<close>.\<close>

definition schedule_buffer :: "AudioBuffer \<Rightarrow> real \<Rightarrow> nat \<Rightarrow> overlay \<Rightarrow> overlay" where
  "schedule_buffer audioBuffer currentTime source s =
     (let s1 = (if nextStartTimeRef s < currentTime then s\<lparr>nextStartTimeRef := currentTime\<rparr>
                else s);
          s2 = s1\<lparr>calls := calls s1 @ [BufferSourceStart source (nextStartTimeRef s1)]\<rparr>;
          s3 = s2\<lparr>nextStartTimeRef := nextStartTimeRef s2 + duration audioBuffer\<rparr>
      in s3\<lparr>audioSourcesRef := set_add source (audioSourcesRef s3)\<rparr>)"

text \<open>
  \<^verbatim>\<open>onmessage\<close>, at device time \<open>currentTime\<close>, with \<open>source\<close> the node
  \<^verbatim>\<open>createBufferSource\<close> returns. The result is the exception the handler ends with, if any,
  and the state it leaves. An empty string is falsy. Without an output context the handler
  returns before it looks at the interruption.
\<close>

definition onmessage :: "message \<Rightarrow> real \<Rightarrow> nat \<Rightarrow> overlay \<Rightarrow> error option \<times> overlay" where
  "onmessage msg currentTime source s =
     (case base64Audio msg of
        None \<Rightarrow> (None, handle_interruption msg s)
      | Some b64 \<Rightarrow>
          if b64 = [] then (None, handle_interruption msg s)
          else
            (case outputAudioContextRef s of
               None \<Rightarrow> (None, s)
             | Some ctx \<Rightarrow>
                 (case decode b64 of
                    Inl e \<Rightarrow> (Some e, s)
                  | Inr bytes \<Rightarrow>
                      (case decodeAudioData bytes 24000 1 of
                         Inl e \<Rightarrow> (Some e, s)
                       | Inr audioBuffer \<Rightarrow>
                           (None, handle_interruption msg
                                    (schedule_buffer audioBuffer currentTime source s))))))"

text \<open>\<^verbatim>\<open>source.onended\<close>, \<^verbatim>\<open>onclose\<close> and \<^verbatim>\<open>onerror\<close>.\<close>

definition onended :: "nat \<Rightarrow> overlay \<Rightarrow> overlay" where
  "onended source s = s\<lparr>audioSourcesRef := set_delete source (audioSourcesRef s)\<rparr>"

definition onclose :: "overlay \<Rightarrow> overlay" where
  "onclose s = s\<lparr>isConnected := False\<rparr>"

definition onerror :: "overlay \<Rightarrow> overlay" where
  "onerror s = s\<lparr>isConnected := False\<rparr>"

text \<open>
  \<^verbatim>\<open>stopSession\<close>. Its first block, under the comment \<^verbatim>\<open>Close Session\<close>, tests
  \<^verbatim>\<open>activeSessionRef.current\<close> and is empty: no call is made on the session, and \<^verbatim>\<open>sessionRef\<close>
  and \<^verbatim>\<open>activeSessionRef\<close> are left as they are. \<^verbatim>\<open>stop\<close> on a buffer source is inside
  \<^verbatim>\<open>try\<close>/\<^verbatim>\<open>catch\<close>, and no other call here throws.
\<close>

definition stopSession :: "overlay \<Rightarrow> overlay" where
  "stopSession s =
     (let s1 = (case streamRef s of
                  None \<Rightarrow> s
                | Some stream \<Rightarrow> s\<lparr>calls := calls s @ map TrackStop stream, streamRef := None\<rparr>);
          s2 = (case processorRef s1 of
                  None \<Rightarrow> s1
                | Some processor \<Rightarrow>
                    s1\<lparr>calls := calls s1 @ [ProcessorDisconnect processor], processorRef := None\<rparr>);
          s3 = (case sourceRef s2 of
                  None \<Rightarrow> s2
                | Some source \<Rightarrow>
                    s2\<lparr>calls := calls s2 @ [SourceDisconnect source], sourceRef := None\<rparr>);
          s4 = (case inputAudioContextRef s3 of
                  None \<Rightarrow> s3
                | Some ctx \<Rightarrow>
                    s3\<lparr>calls := calls s3 @ [ContextClose ctx], inputAudioContextRef := None\<rparr>);
          s5 = (case outputAudioContextRef s4 of
                  None \<Rightarrow> s4
                | Some ctx \<Rightarrow>
                    s4\<lparr>calls := calls s4 @ [ContextClose ctx], outputAudioContextRef := None\<rparr>);
          s6 = s5\<lparr>calls := calls s5 @ map BufferSourceStop (audioSourcesRef s5),
                    audioSourcesRef := [], nextStartTimeRef := 0\<rparr>
      in s6\<lparr>isConnected := False, isConnecting := False\<rparr>)"

section \<open>Auxiliary definitions\<close>

text \<open>
  The 6-bit values \<^verbatim>\<open>btoa\<close> encodes, before the alphabet and the padding; they relate
  \<^verbatim>\<open>btoa\<close> to \<^verbatim>\<open>atob\<close>.
\<close>

fun sextets :: "string \<Rightarrow> nat list" where
  "sextets (a # b # c # rest) =
      [of_char a div 4, (of_char a mod 4) * 16 + of_char b div 16,
       (of_char b mod 16) * 4 + of_char c div 64, of_char c mod 64] @ sextets rest"
| "sextets [a, b] =
      [of_char a div 4, (of_char a mod 4) * 16 + of_char b div 16, (of_char b mod 16) * 4]"
| "sextets [a] = [of_char a div 4, (of_char a mod 4) * 16]"
| "sextets [] = []"

text \<open>
  The composition the round-trip property is about:
  \<^verbatim>\<open>decodeAudioData(decode(createBlob(S).data), ctx, rate, 1)\<close>.
\<close>

definition round_trip :: "real \<Rightarrow> number list \<Rightarrow> error + AudioBuffer" where
  "round_trip rate samples =
     (case decode (data (createBlob samples)) of
        Inl e \<Rightarrow> Inl e
      | Inr bytes \<Rightarrow> decodeAudioData bytes rate 1)"

text \<open>
  The calls one \<^verbatim>\<open>stopSession\<close> makes from a state: one for every track of the stream, one
  for every ref that holds a node or a context, one for every buffer source of the set.
  \<open>distinct_objects\<close> says that the state names no object twice.
\<close>

definition released :: "overlay \<Rightarrow> call list" where
  "released s =
     (case streamRef s of None \<Rightarrow> [] | Some stream \<Rightarrow> map TrackStop stream) @
     (case processorRef s of None \<Rightarrow> [] | Some processor \<Rightarrow> [ProcessorDisconnect processor]) @
     (case sourceRef s of None \<Rightarrow> [] | Some source \<Rightarrow> [SourceDisconnect source]) @
     (case inputAudioContextRef s of None \<Rightarrow> [] | Some ctx \<Rightarrow> [ContextClose ctx]) @
     (case outputAudioContextRef s of None \<Rightarrow> [] | Some ctx \<Rightarrow> [ContextClose ctx]) @
     map BufferSourceStop (audioSourcesRef s)"

definition distinct_objects :: "overlay \<Rightarrow> bool" where
  "distinct_objects s =
     (distinct (case streamRef s of None \<Rightarrow> [] | Some stream \<Rightarrow> stream) \<and>
      distinct (audioSourcesRef s) \<and>
      (inputAudioContextRef s = None \<or> inputAudioContextRef s \<noteq> outputAudioContextRef s))"

text \<open>
  The number of frames of the audio chunk a message carries, when \<^verbatim>\<open>onmessage\<close> can decode
  one, and the duration of the chunk at the output rate.
\<close>

definition chunk_frames :: "message \<Rightarrow> nat option" where
  "chunk_frames msg =
     (case base64Audio msg of
        None \<Rightarrow> None
      | Some b64 \<Rightarrow>
          if b64 = [] then None
          else (case decode b64 of
                  Inl e \<Rightarrow> None
                | Inr bytes \<Rightarrow>
                    (case decodeAudioData bytes 24000 1 of
                       Inl e \<Rightarrow> None
                     | Inr audioBuffer \<Rightarrow> Some (frames audioBuffer))))"

definition chunk_duration :: "message \<Rightarrow> real" where
  "chunk_duration msg = (case chunk_frames msg of None \<Rightarrow> 0 | Some n \<Rightarrow> real n / 24000)"

text \<open>
  A run of messages, each with the device time at which it arrives and the source node
  created for it, handled one after the other. \<open>in_time\<close> says that each message of the run
  arrives no later than the playback cursor stands, that is, before the audio scheduled so
  far has finished. \<open>start_times\<close> reads the start times off the calls, and
  \<open>back_to_back\<close> lists the start times of buffers of the given durations played without
  a gap from a given time.
\<close>

fun deliver :: "(message \<times> real \<times> nat) list \<Rightarrow> overlay \<Rightarrow> overlay" where
  "deliver [] s = s"
| "deliver ((msg, currentTime, source) # rest) s =
     deliver rest (snd (onmessage msg currentTime source s))"

fun in_time :: "(message \<times> real \<times> nat) list \<Rightarrow> overlay \<Rightarrow> bool" where
  "in_time [] s = True"
| "in_time ((msg, currentTime, source) # rest) s =
     (currentTime \<le> nextStartTimeRef s \<and>
      in_time rest (snd (onmessage msg currentTime source s)))"

fun start_times :: "call list \<Rightarrow> real list" where
  "start_times [] = []"
| "start_times (BufferSourceStart source t # cs) = t # start_times cs"
| "start_times (c # cs) = start_times cs"

fun back_to_back :: "real \<Rightarrow> real list \<Rightarrow> real list" where
  "back_to_back t [] = []"
| "back_to_back t (d # ds) = t # back_to_back (t + d) ds"

text \<open>The calls a handler has added to those of the state it started from.\<close>

definition new_calls :: "overlay \<Rightarrow> overlay \<Rightarrow> call list" where
  "new_calls s s' = drop (length (calls s)) (calls s')"

text \<open>A state with a session open and two buffers scheduled, for examples.\<close>

definition live :: overlay where
  "live = mounted\<lparr>isConnected := True, inputAudioContextRef := Some 1,
            outputAudioContextRef := Some 2, streamRef := Some [3], processorRef := Some 5,
            sourceRef := Some 4, nextStartTimeRef := 3 / 2, audioSourcesRef := [7, 8],
            sessionRef := Some 6, calls := [Connect 6 VOICE_PERSONAS_0]\<rparr>"

text \<open>A message that carries half a second of silence at the output rate: 12000 frames.\<close>

definition half_second :: message where
  "half_second =
     \<lparr>base64Audio = Some (data (createBlob (replicate 12000 (Num 0)))), interrupted = False\<rparr>"

section \<open>Base64 round trip\<close>

lemma of_char_lt: "(of_char c :: nat) < 256"
  by (cases c) simp

lemma b64_value_char: "i < 64 \<Longrightarrow> b64_value (b64_char i) = Some i"
  by (auto simp: b64_value_def b64_char_def Let_def of_char_of)

lemma b64_char_code:
  "(of_char (b64_char i) :: nat) \<in> {65..90} \<union> {97..122} \<union> {48..57} \<union> {43, 47}"
  by (auto simp: b64_char_def of_char_of)

lemma b64_char_not_pad: "b64_char i \<noteq> CHR ''=''"
proof
  assume "b64_char i = CHR ''=''"
  then have "(of_char (b64_char i) :: nat) = 61" by simp
  with b64_char_code [of i] show False by auto
qed

lemma b64_char_not_ws: "\<not> ascii_whitespace (b64_char i)"
  using b64_char_code [of i] by (auto simp: ascii_whitespace_def)

lemma pad_not_ws: "\<not> ascii_whitespace CHR ''=''"
  by (simp add: ascii_whitespace_def)

lemma btoa_no_ws: "filter (\<lambda>c. \<not> ascii_whitespace c) (btoa s) = btoa s"
  by (induction s rule: sextets.induct) (simp_all add: Let_def b64_char_not_ws pad_not_ws)

lemma length_btoa: "length (btoa s) mod 4 = 0"
  by (induction s rule: sextets.induct) (simp_all add: Let_def)

lemma length_btoa_ge: "s \<noteq> [] \<Longrightarrow> 4 \<le> length (btoa s)"
  by (induction s rule: sextets.induct) (simp_all add: Let_def)

lemma sextet_bounds1:
  fixes x :: nat
  assumes "x < 256"
  shows "x div 4 < 64" "(x mod 16) * 4 < 64" "(x mod 4) * 16 < 64"
  using assms by simp_all

lemma sextet_bounds2:
  fixes x y :: nat
  assumes "y < 256"
  shows "(x mod 4) * 16 + y div 16 < 64" "(x mod 16) * 4 + y div 64 < 64"
  using assms by simp_all

lemma sextets_lt: "\<forall>v \<in> set (sextets s). v < 64"
  by (induction s rule: sextets.induct) (simp_all add: sextet_bounds1 sextet_bounds2 of_char_lt)

lemma those_map_b64: "\<forall>v \<in> set vs. v < 64 \<Longrightarrow> those (map (b64_value \<circ> b64_char) vs) = Some vs"
  by (induction vs) (simp_all add: b64_value_char)

lemma strip_padding_btoa: "strip_padding (btoa s) = map b64_char (sextets s)"
proof (induction s rule: sextets.induct)
  case (1 a b c rest)
  let ?t = "btoa rest"
  show ?case
  proof (cases rest)
    case Nil
    then show ?thesis by (simp add: strip_padding_def Let_def b64_char_not_pad)
  next
    case (Cons r rs)
    then have len: "length ?t mod 4 = 0" "length ?t \<ge> 4"
      by (simp_all add: length_btoa length_btoa_ge)
    then have ne: "?t \<noteq> []" "butlast ?t \<noteq> []"
      by (auto simp: butlast_conv_take)
    from 1 have ih: "strip_padding ?t = map b64_char (sextets rest)" .
    have "strip_padding (btoa (a # b # c # rest)) =
          [b64_char (of_char a div 4), b64_char ((of_char a mod 4) * 16 + of_char b div 16),
           b64_char ((of_char b mod 16) * 4 + of_char c div 64), b64_char (of_char c mod 64)]
          @ strip_padding ?t"
      using len ne by (simp add: strip_padding_def Let_def butlast_append)
    then show ?thesis by (simp add: ih)
  qed
qed (simp_all add: strip_padding_def Let_def b64_char_not_pad)

lemma length_sextets_mod: "length (sextets s) mod 4 \<noteq> Suc 0"
  by (induction s rule: sextets.induct) simp_all

lemma unpack:
  fixes p q :: nat
  shows "q < 16 \<Longrightarrow> (p * 16 + q) div 16 = p" "q < 16 \<Longrightarrow> (p * 16 + q) mod 16 = q"
    "q < 4 \<Longrightarrow> (p * 4 + q) div 4 = p" "q < 4 \<Longrightarrow> (p * 4 + q) mod 4 = q"
    "(p * 4) div 4 = p" "(p * 16) div 16 = p"
  by simp_all

lemma byte_parts:
  fixes x :: nat
  assumes "x < 256"
  shows "x div 16 < 16" "x div 64 < 4" "x div 4 * 4 + x mod 4 = x"
    "x div 16 * 16 + x mod 16 = x" "x div 64 * 64 + x mod 64 = x"
  using assms by simp_all

lemma pack_sextets_inv: "pack_sextets (sextets s) = s"
proof (induction s rule: sextets.induct)
  case (1 a b c rest)
  define x y z where "x = (of_char a :: nat)" and "y = (of_char b :: nat)" and "z = (of_char c :: nat)"
  have lt: "x < 256" "y < 256" "z < 256" by (simp_all add: x_def y_def z_def of_char_lt)
  have e1: "x div 4 * 4 + (x mod 4 * 16 + y div 16) div 16 = x"
    using lt by (simp add: unpack byte_parts)
  have e2: "(x mod 4 * 16 + y div 16) mod 16 * 16 + (y mod 16 * 4 + z div 64) div 4 = y"
    using lt by (simp add: unpack byte_parts)
  have e3: "(y mod 16 * 4 + z div 64) mod 4 * 64 + z mod 64 = z"
    using lt by (simp add: unpack byte_parts)
  have "char_of x = a" "char_of y = b" "char_of z = c" by (simp_all add: x_def y_def z_def)
  with e1 e2 e3 1 show ?case by (simp flip: x_def y_def z_def)
next
  case (2 a b)
  define x y where "x = (of_char a :: nat)" and "y = (of_char b :: nat)"
  have lt: "x < 256" "y < 256" by (simp_all add: x_def y_def of_char_lt)
  have e1: "x div 4 * 4 + (x mod 4 * 16 + y div 16) div 16 = x"
    using lt by (simp add: unpack byte_parts)
  have e2: "(x mod 4 * 16 + y div 16) mod 16 * 16 + (y mod 16 * 4) div 4 = y"
    using lt by (simp add: unpack byte_parts)
  have "char_of x = a" "char_of y = b" by (simp_all add: x_def y_def)
  with e1 e2 show ?case by (simp flip: x_def y_def)
next
  case (3 a)
  define x where "x = (of_char a :: nat)"
  have lt: "x < 256" by (simp_all add: x_def of_char_lt)
  have e1: "x div 4 * 4 + (x mod 4 * 16) div 16 = x"
    using lt by (simp add: unpack byte_parts)
  have "char_of x = a" by (simp_all add: x_def)
  with e1 show ?case by (simp flip: x_def)
qed simp

lemma atob_btoa: "atob (btoa s) = Inr s"
  by (simp add: atob_def btoa_no_ws strip_padding_btoa length_sextets_mod
      those_map_b64 sextets_lt pack_sextets_inv)

section \<open>Typed-array views and the decoder loop\<close>

lemma unat_of_nat_byte: "unat (of_nat n :: 8 word) = n mod 256"
  by (simp add: unat_of_nat)

lemma int16_of_bytes_inv: "of_nat (unat (of_nat (unat w mod 256) :: 8 word)
     + 256 * unat (of_nat (unat w div 256) :: 8 word)) = (w :: 16 word)"
proof -
  have "unat w < 65536" using unsigned_less [of w, where 'a=nat] by simp
  then have "unat w div 256 < 256" by simp
  then have "unat w mod 256 + 256 * ((unat w div 256) mod 256) = unat w" by simp
  then show ?thesis by (simp add: unat_of_nat_byte)
qed

lemma int16_of_bytes_inv':
  "ucast (of_nat (unat w mod 256) :: 8 word) + 256 * ucast (of_nat (unat w div 256) :: 8 word)
     = (w :: 16 word)"
  using int16_of_bytes_inv [of w] by simp

lemma int16_of_bytes_view: "int16_of_bytes (Uint8Array_view int16) = int16"
  by (induction int16) (simp_all add: Uint8Array_view_def bytes_of_int16_def int16_of_bytes_inv')

lemma length_Uint8Array_view: "length (Uint8Array_view int16) = 2 * length int16"
  by (induction int16) (simp_all add: Uint8Array_view_def bytes_of_int16_def)

lemma byte_of_char_inv: "of_nat (unat b mod 256) = (b :: 8 word)"
proof -
  have "unat b < 256" using unsigned_less [of b, where 'a=nat] by simp
  then show ?thesis by simp
qed

lemma decode_createBlob:
  "decode (data (createBlob samples)) =
     Inr (Uint8Array_view (map (\<lambda>x. ToInt16 (times_32768 x)) samples))"
  by (simp add: decode_def createBlob_def atob_btoa byte_of_char_inv o_def)

lemma length_fill_channel:
  "length (fill_channel dataInt16 numChannels channel frameCount i channelData) = length channelData"
proof (induction dataInt16 numChannels channel frameCount i channelData rule: fill_channel.induct)
  case (1 dataInt16 numChannels channel frameCount i channelData)
  then show ?case
    by (subst fill_channel.simps) simp
qed

lemma nth_fill_channel:
  "j < length channelData \<Longrightarrow>
   fill_channel dataInt16 numChannels channel frameCount i channelData ! j =
     (if i \<le> j \<and> real j < frameCount then read_sample dataInt16 (j * numChannels + channel)
      else channelData ! j)"
proof (induction dataInt16 numChannels channel frameCount i channelData rule: fill_channel.induct)
  case (1 dataInt16 numChannels channel frameCount i channelData)
  show ?case
  proof (cases "real i < frameCount")
    case True
    show ?thesis
    proof (cases "j = i")
      case eq: True
      with True 1 show ?thesis
        by (subst fill_channel.simps) simp
    next
      case False
      with True 1 show ?thesis
        by (subst fill_channel.simps) auto
    qed
  next
    case False
    then show ?thesis
      by (subst fill_channel.simps) auto
  qed
qed

lemma length_int16_of_bytes: "length (int16_of_bytes bytes) = length bytes div 2"
  by (induction bytes rule: int16_of_bytes.induct) simp_all

lemma truncate_number_of_nat_divide:
  "truncate_number (real a / real b) = int (a div b)"
proof -
  have "\<not> real a / real b < 0" by (simp add: not_less)
  then show ?thesis
    by (simp add: truncate_number_def floor_divide_of_nat_eq)
qed

lemma ToUint32_divide_lengths:
  "0 < b \<Longrightarrow> ToUint32 (divide_lengths a b) = (a div b) mod 2 ^ 32"
  by (simp add: divide_lengths_def truncate_number_of_nat_divide nat_mod_distrib
      flip: of_nat_power of_nat_mod)

lemma frame_in_range:
  fixes n numChannels j c :: nat
  assumes "j < n div numChannels" "c < numChannels"
  shows "j * numChannels + c < n" and "real j < real n / real numChannels"
proof -
  from assms have pos: "0 < numChannels" by simp
  from assms(1) have "Suc j \<le> n div numChannels" by simp
  then have "Suc j * numChannels \<le> n div numChannels * numChannels"
    by (rule mult_le_mono1)
  also have "\<dots> \<le> n" by simp
  finally have le: "Suc j * numChannels \<le> n" .
  with assms(2) show "j * numChannels + c < n" by simp
  from le pos have "j * numChannels < n" by simp
  then have "real j * real numChannels < real n"
    by (simp flip: of_nat_mult)
  with pos show "real j < real n / real numChannels"
    by (simp add: pos_less_divide_eq)
qed

lemma fill_channel_zero:
  assumes "F \<le> length dataInt16 div numChannels" "channel < numChannels"
  shows "fill_channel dataInt16 numChannels channel
           (real (length dataInt16) / real numChannels) 0 (replicate F (Num 0)) =
         map (\<lambda>j. Num (real_of_int (sint (dataInt16 ! (j * numChannels + channel))) / 32768))
             [0..<F]"
proof (rule nth_equalityI)
  show "length (fill_channel dataInt16 numChannels channel
           (real (length dataInt16) / real numChannels) 0 (replicate F (Num 0))) =
        length (map (\<lambda>j. Num (real_of_int (sint (dataInt16 ! (j * numChannels + channel))) / 32768))
             [0..<F])"
    by (simp add: length_fill_channel)
next
  fix j
  assume "j < length (fill_channel dataInt16 numChannels channel
           (real (length dataInt16) / real numChannels) 0 (replicate F (Num 0)))"
  then have j: "j < F" by (simp add: length_fill_channel)
  with assms have "j < length dataInt16 div numChannels" by simp
  from frame_in_range [OF this assms(2)] j
  show "fill_channel dataInt16 numChannels channel
           (real (length dataInt16) / real numChannels) 0 (replicate F (Num 0)) ! j =
        map (\<lambda>j. Num (real_of_int (sint (dataInt16 ! (j * numChannels + channel))) / 32768))
             [0..<F] ! j"
    by (simp add: nth_fill_channel read_sample_def)
qed

lemma decodeAudioData_eq:
  assumes "0 < numChannels"
  shows "decodeAudioData bytes rate numChannels =
     (if odd (length bytes) then Inl RangeError
      else if (length bytes div 2 div numChannels) mod 2 ^ 32 = 0 then Inl NotSupportedError
      else Inr \<lparr>sampleRate = rate,
                frames = (length bytes div 2 div numChannels) mod 2 ^ 32,
                channels = map (\<lambda>channel.
                    map (\<lambda>j. Num (real_of_int (sint (int16_of_bytes bytes ! (j * numChannels + channel))) / 32768))
                        [0..<(length bytes div 2 div numChannels) mod 2 ^ 32])
                  [0..<numChannels]\<rparr>)"
proof -
  let ?d = "int16_of_bytes bytes"
  let ?F = "(length bytes div 2 div numChannels) mod 2 ^ 32"
  have F: "?F \<le> length ?d div numChannels"
    by (simp add: length_int16_of_bytes)
  have U: "ToUint32 (divide_lengths (length ?d) numChannels) = ?F"
    using assms by (simp add: ToUint32_divide_lengths length_int16_of_bytes)
  have D: "divide_lengths (length ?d) numChannels = Num (real (length ?d) / real numChannels)"
    using assms by (simp add: divide_lengths_def)
  have U': "ToUint32 (Num (real (length ?d) / real numChannels)) = ?F"
    using U by (simp only: D)
  show ?thesis
    using assms F
    by (simp add: decodeAudioData_def Int16Array_view_def createBuffer_def U' D Let_def
        fill_channel_zero del: ToUint32.simps)
qed

section \<open>Properties of the codec\<close>

lemma truncate_number_range:
  assumes "- 32768 \<le> y" "y < 32768"
  shows "- 32768 \<le> truncate_number y" "truncate_number y < 32768"
proof -
  show "- 32768 \<le> truncate_number y"
  proof (cases "y < 0")
    case True
    with assms have "\<lfloor>- y\<rfloor> \<le> 32768" by linarith
    with True show ?thesis by (simp add: truncate_number_def)
  next
    case False
    then have "0 \<le> \<lfloor>y\<rfloor>" by simp
    with False show ?thesis by (simp add: truncate_number_def)
  qed
  show "truncate_number y < 32768"
  proof (cases "y < 0")
    case True
    then show ?thesis by (simp add: truncate_number_def, linarith)
  next
    case False
    with assms have "\<lfloor>y\<rfloor> < 32768" by linarith
    with False show ?thesis by (simp add: truncate_number_def)
  qed
qed

lemma truncate_number_close: "\<bar>real_of_int (truncate_number y) - y\<bar> < 1"
  by (simp add: truncate_number_def) linarith

lemma sint_ToInt16:
  assumes "- 1 \<le> r" "r < 1"
  shows "sint (ToInt16 (times_32768 (Num r))) = truncate_number (r * 32768)"
proof -
  from assms have "- 32768 \<le> r * 32768" "r * 32768 < 32768" by simp_all
  from truncate_number_range [OF this] show ?thesis
    by (simp add: sint_sbintrunc' signed_take_bit_int_eq_self)
qed

lemma sample_error:
  assumes "- 1 \<le> r" "r < 1"
  shows "\<bar>real_of_int (sint (ToInt16 (times_32768 (Num r)))) / 32768 - r\<bar> \<le> 1 / 32768"
proof -
  have "\<bar>real_of_int (truncate_number (r * 32768)) - r * 32768\<bar> < 1"
    by (rule truncate_number_close)
  then have "\<bar>real_of_int (truncate_number (r * 32768)) / 32768 - r\<bar> < 1 / 32768"
    by (simp add: abs_less_iff field_simps)
  then show ?thesis
    unfolding sint_ToInt16 [OF assms] by linarith
qed

lemma round_trip_eq:
  assumes "samples \<noteq> []" "length samples < 2 ^ 32"
  shows "round_trip rate samples =
     Inr \<lparr>sampleRate = rate, frames = length samples,
          channels = [map (\<lambda>x. Num (real_of_int (sint (ToInt16 (times_32768 x))) / 32768)) samples]\<rparr>"
proof -
  let ?ws = "map (\<lambda>x. ToInt16 (times_32768 x)) samples"
  have "map (\<lambda>j. Num (real_of_int (sint (?ws ! j)) / 32768)) [0..<length samples] =
        map (\<lambda>x. Num (real_of_int (sint (ToInt16 (times_32768 x))) / 32768)) samples"
    by (rule nth_equalityI) simp_all
  with assms show ?thesis
    by (simp add: round_trip_def decode_createBlob decodeAudioData_eq length_Uint8Array_view
        int16_of_bytes_view)
qed

text \<open>
  Claim C1, as amended. For a sequence of at least one and fewer than \<open>2^32\<close> samples, each
  finite with \<open>-1 \<le> x < 1\<close>, encoding with \<^verbatim>\<open>createBlob\<close> and decoding with \<^verbatim>\<open>decode\<close> and
  \<^verbatim>\<open>decodeAudioData\<close> on one channel returns a buffer whose single channel has the same
  length, every sample within \<open>1/32768\<close> of the one sent.
\<close>

theorem codec_round_trip:
  assumes "samples \<noteq> []" and "length samples < 2 ^ 32"
    and "\<forall>x \<in> set samples. \<exists>r. x = Num r \<and> - 1 \<le> r \<and> r < 1"
  shows "\<exists>buffer out. round_trip rate samples = Inr buffer \<and> channels buffer = [out] \<and>
           length out = length samples \<and>
           (\<forall>i < length samples. \<exists>r r'. samples ! i = Num r \<and> out ! i = Num r' \<and>
               \<bar>r' - r\<bar> \<le> 1 / 32768)"
proof -
  let ?out = "map (\<lambda>x. Num (real_of_int (sint (ToInt16 (times_32768 x))) / 32768)) samples"
  have "\<exists>r r'. samples ! i = Num r \<and> ?out ! i = Num r' \<and> \<bar>r' - r\<bar> \<le> 1 / 32768"
    if "i < length samples" for i
  proof -
    from that assms(3) obtain r where r: "samples ! i = Num r" "- 1 \<le> r" "r < 1"
      by (meson nth_mem)
    have "?out ! i = Num (real_of_int (sint (ToInt16 (times_32768 (Num r)))) / 32768)"
      using that r(1) by simp
    with r(1) sample_error [OF r(2,3)] show ?thesis by blast
  qed
  with round_trip_eq [OF assms(1,2), of rate] show ?thesis by simp
qed

text \<open>The round trip on three samples, the last one not a multiple of \<open>1/32768\<close>.\<close>

theorem codec_round_trip_witness:
  "\<exists>buffer out. round_trip 16000 [Num (1 / 2), Num (- 1), Num (3 / 65536)] = Inr buffer \<and>
      channels buffer = [out] \<and> length out = 3 \<and>
      (\<exists>r'. out ! 2 = Num r' \<and> \<bar>r' - 3 / 65536\<bar> \<le> 1 / 32768)"
proof -
  have "[Num (1 / 2), Num (- 1), Num (3 / 65536)] \<noteq> []"
    and "length [Num (1 / 2), Num (- 1), Num (3 / 65536)] < 2 ^ 32"
    and "\<forall>x \<in> set [Num (1 / 2), Num (- 1), Num (3 / 65536)]. \<exists>r. x = Num r \<and> - 1 \<le> r \<and> r < 1"
    by (simp_all del: divide_eq_eq_numeral1 eq_divide_eq_numeral1 add: exI [of _ "1 / 2"] exI [of _ "3 / 65536"])
  from codec_round_trip [OF this, of 16000]
  obtain buffer out where b: "round_trip 16000 [Num (1 / 2), Num (- 1), Num (3 / 65536)] = Inr buffer"
      "channels buffer = [out]" "length out = length [Num (1 / 2), Num (- 1), Num (3 / 65536)]"
    and every: "\<forall>i < length [Num (1 / 2), Num (- 1), Num (3 / 65536)].
          \<exists>r r'. [Num (1 / 2), Num (- 1), Num (3 / 65536)] ! i = Num r \<and> out ! i = Num r' \<and>
               \<bar>r' - r\<bar> \<le> 1 / 32768"
    by blast
  from every have "\<exists>r r'. [Num (1 / 2), Num (- 1), Num (3 / 65536)] ! 2 = Num r \<and>
      out ! 2 = Num r' \<and> \<bar>r' - r\<bar> \<le> 1 / 32768"
    by (rule allE [of _ 2]) simp
  then have "\<exists>r'. out ! 2 = Num r' \<and> \<bar>r' - 3 / 65536\<bar> \<le> 1 / 32768"
    by (simp del: divide_eq_eq_numeral1 eq_divide_eq_numeral1)
  with b show ?thesis by simp
qed

text \<open>
  Claim C1 as stated fails at the sample \<open>1\<close>, which lies in \<open>[-1, 1]\<close>: \<open>1 * 32768\<close> does not
  fit 16 bits, wraps to \<open>-32768\<close> and comes back as \<open>-1\<close>.
\<close>

theorem codec_round_trip_full_scale:
  "round_trip 16000 [Num 1] = Inr \<lparr>sampleRate = 16000, frames = 1, channels = [[Num (- 1)]]\<rparr>
   \<and> \<not> \<bar>(- 1) - (1 :: real)\<bar> \<le> 1 / 32768"
  by (simp add: round_trip_eq truncate_number_def)

lemma sample_value_range:
  "- 1 \<le> real_of_int (sint (w :: 16 word)) / 32768 \<and> real_of_int (sint w) / 32768 \<le> 32767 / 32768"
proof -
  have "- 32768 \<le> sint w" "sint w < 32768"
    using sint_ge [of w] sint_lt [of w] by simp_all
  then have "- 32768 \<le> real_of_int (sint w)" "real_of_int (sint w) \<le> 32767"
    by linarith+
  then show ?thesis by simp
qed

lemma decodeAudioData_channels_positive:
  assumes "decodeAudioData bytes rate numChannels = Inr buffer"
  shows "0 < numChannels"
proof (rule ccontr)
  assume "\<not> 0 < numChannels"
  then have "decodeAudioData bytes rate numChannels \<noteq> Inr buffer"
    by (simp add: decodeAudioData_def Int16Array_view_def createBuffer_def)
  with assms show False by simp
qed

text \<open>
  Claim C10. Whenever \<^verbatim>\<open>decodeAudioData\<close> returns a buffer, it has the channels asked for, each
  of the buffer's length, and every sample is a finite number in \<open>[-1, 32767/32768]\<close>.
\<close>

theorem decoded_sample_range:
  assumes "decodeAudioData bytes rate numChannels = Inr buffer"
  shows "length (channels buffer) = numChannels \<and>
         (\<forall>channelData \<in> set (channels buffer). length channelData = frames buffer \<and>
            (\<forall>x \<in> set channelData. \<exists>r. x = Num r \<and> - 1 \<le> r \<and> r \<le> 32767 / 32768))"
proof -
  from assms have pos: "0 < numChannels"
    by (rule decodeAudioData_channels_positive)
  let ?F = "(length bytes div 2 div numChannels) mod 2 ^ 32"
  let ?chan = "\<lambda>channel. map (\<lambda>j. Num (real_of_int (sint (int16_of_bytes bytes ! (j * numChannels + channel))) / 32768)) [0..<?F]"
  from assms have buffer: "buffer = \<lparr>sampleRate = rate, frames = ?F, channels = map ?chan [0..<numChannels]\<rparr>"
    unfolding decodeAudioData_eq [OF pos] by (simp split: if_splits)
  have "\<exists>r. x = Num r \<and> - 1 \<le> r \<and> r \<le> 32767 / 32768" if "x \<in> set (?chan c)" for x c
  proof -
    from that obtain j where "x = Num (real_of_int (sint (int16_of_bytes bytes ! (j * numChannels + c))) / 32768)"
      by auto
    with sample_value_range [of "int16_of_bytes bytes ! (j * numChannels + c)"]
    show ?thesis by blast
  qed
  then show ?thesis
    unfolding buffer by (simp add: image_iff)
qed

text \<open>A packet of one frame on two channels that holds the two extreme 16-bit values.\<close>

theorem decoded_sample_range_witness:
  "\<exists>buffer. decodeAudioData [0, 128, 255, 127] 24000 2 = Inr buffer \<and>
     channels buffer = [[Num (- 1)], [Num (32767 / 32768)]] \<and>
     length (channels buffer) = 2 \<and>
     (\<exists>r. hd (hd (channels buffer)) = Num r \<and> - 1 \<le> r \<and> r \<le> 32767 / 32768)"
proof -
  have e: "decodeAudioData [0, 128, 255, 127] 24000 2 =
     Inr \<lparr>sampleRate = 24000, frames = 1, channels = [[Num (- 1)], [Num (32767 / 32768)]]\<rparr>"
    by (simp add: decodeAudioData_eq upt_conv_Cons)
  from decoded_sample_range [OF e] e show ?thesis
    by simp
qed

lemma nth_Uint8Array_view:
  "i < length int16 \<Longrightarrow>
     Uint8Array_view int16 ! (2 * i) = of_nat (unat (int16 ! i) mod 256) \<and>
     Uint8Array_view int16 ! (2 * i + 1) = of_nat (unat (int16 ! i) div 256)"
proof (induction int16 arbitrary: i)
  case Nil
  then show ?case by simp
next
  case (Cons w ws)
  show ?case
  proof (cases i)
    case 0
    then show ?thesis by (simp add: Uint8Array_view_def bytes_of_int16_def)
  next
    case (Suc k)
    with Cons.prems have "k < length ws" by simp
    from Cons.IH [OF this] Suc show ?thesis
      by (simp add: Uint8Array_view_def bytes_of_int16_def)
  qed
qed

lemma int16_bytes_value:
  "int (unat (of_nat (unat w mod 256) :: 8 word)) + 256 * int (unat (of_nat (unat w div 256) :: 8 word))
     = uint (w :: 16 word)"
proof -
  have "unat w < 65536" using unsigned_less [of w, where 'a=nat] by simp
  then have "unat w div 256 < 256" by simp
  then have e: "unat w mod 256 mod 256 + 256 * ((unat w div 256) mod 256) = unat w" by simp
  have "int (unat w mod 256 mod 256) + 256 * int ((unat w div 256) mod 256) =
        int (unat w mod 256 mod 256 + 256 * ((unat w div 256) mod 256))"
    by simp
  also have "\<dots> = int (unat w)"
    by (simp only: e)
  finally show ?thesis
    by (simp only: unat_of_nat_byte uint_nat)
qed

text \<open>
  Claim C9, as amended. \<^verbatim>\<open>createBlob\<close> tags the packet \<^verbatim>\<open>audio/pcm;rate=16000\<close>; its data is the
  base64 text of two bytes per sample, low byte first, which hold \<open>sample * 32768\<close> truncated
  towards zero and reduced modulo \<open>2^16\<close> (nothing is clamped), and 0 for a sample that is not
  finite.
\<close>

theorem createBlob_conversion:
  "mimeType (createBlob samples) = ''audio/pcm;rate=16000'' \<and>
   (\<exists>bytes. decode (data (createBlob samples)) = Inr bytes \<and> length bytes = 2 * length samples \<and>
      (\<forall>i < length samples.
         (\<forall>x. samples ! i = Num x \<longrightarrow>
            int (unat (bytes ! (2 * i))) + 256 * int (unat (bytes ! (2 * i + 1)))
              = truncate_number (x * 32768) mod 65536) \<and>
         (samples ! i \<in> {NaN, PosInfinity, NegInfinity} \<longrightarrow>
            bytes ! (2 * i) = 0 \<and> bytes ! (2 * i + 1) = 0)))"
proof -
  let ?ws = "map (\<lambda>x. ToInt16 (times_32768 x)) samples"
  have conv: "int (unat (Uint8Array_view ?ws ! (2 * i))) + 256 * int (unat (Uint8Array_view ?ws ! (2 * i + 1)))
      = uint (ToInt16 (times_32768 (samples ! i)))" if "i < length samples" for i
    using nth_Uint8Array_view [of i ?ws] that by (simp only: int16_bytes_value length_map nth_map)
  have fin: "int (unat (Uint8Array_view ?ws ! (2 * i))) + 256 * int (unat (Uint8Array_view ?ws ! (2 * i + 1)))
      = truncate_number (x * 32768) mod 65536" if "i < length samples" "samples ! i = Num x" for i x
    using conv [OF that(1)] that(2) by (simp add: uint_word_of_int)
  have inf: "Uint8Array_view ?ws ! (2 * i) = 0 \<and> Uint8Array_view ?ws ! (2 * i + 1) = 0"
    if "i < length samples" "samples ! i \<in> {NaN, PosInfinity, NegInfinity}" for i
    using nth_Uint8Array_view [of i ?ws] that by auto
  have "mimeType (createBlob samples) = ''audio/pcm;rate=16000''"
    by (simp add: createBlob_def)
  moreover have "decode (data (createBlob samples)) = Inr (Uint8Array_view ?ws)"
    by (rule decode_createBlob)
  moreover have "length (Uint8Array_view ?ws) = 2 * length samples"
    by (simp add: length_Uint8Array_view)
  ultimately show ?thesis using fin inf by blast
qed

text \<open>Three samples: one that truncates to 1, one out of range that wraps, and \<^verbatim>\<open>NaN\<close>.\<close>

theorem createBlob_conversion_witness:
  "\<exists>bytes. decode (data (createBlob [Num (7 / 131072), Num (5 / 4), NaN])) = Inr bytes \<and>
     int (unat (bytes ! 0)) + 256 * int (unat (bytes ! 1)) = 1 \<and>
     int (unat (bytes ! 2)) + 256 * int (unat (bytes ! 3)) = 40960 \<and>
     bytes ! 4 = 0 \<and> bytes ! 5 = 0"
proof -
  let ?S = "[Num (7 / 131072), Num (5 / 4), NaN]"
  from createBlob_conversion [of ?S]
  obtain bytes where d: "decode (data (createBlob ?S)) = Inr bytes"
    and every: "\<forall>i < length ?S.
         (\<forall>x. ?S ! i = Num x \<longrightarrow>
            int (unat (bytes ! (2 * i))) + 256 * int (unat (bytes ! (2 * i + 1)))
              = truncate_number (x * 32768) mod 65536) \<and>
         (?S ! i \<in> {NaN, PosInfinity, NegInfinity} \<longrightarrow>
            bytes ! (2 * i) = 0 \<and> bytes ! (2 * i + 1) = 0)"
    by blast
  have i0: "(0::nat) < length ?S" and s0: "?S ! 0 = Num (7 / 131072)" by simp_all
  have i1: "(1::nat) < length ?S" and s1: "?S ! 1 = Num (5 / 4)" by simp_all
  have i2: "(2::nat) < length ?S" and s2: "?S ! 2 \<in> {NaN, PosInfinity, NegInfinity}" by simp_all
  from every i0 s0 have "int (unat (bytes ! (2 * 0))) + 256 * int (unat (bytes ! (2 * 0 + 1)))
              = truncate_number (7 / 131072 * 32768) mod 65536"
    by blast
  moreover from every i1 s1 have "int (unat (bytes ! (2 * 1))) + 256 * int (unat (bytes ! (2 * 1 + 1)))
              = truncate_number (5 / 4 * 32768) mod 65536"
    by blast
  moreover from every i2 s2 have "bytes ! (2 * 2) = 0 \<and> bytes ! (2 * 2 + 1) = 0"
    by blast
  ultimately show ?thesis using d
    by (simp add: truncate_number_def)
qed

text \<open>
  Claim C9 as stated fails at the sample \<open>7/131072\<close>: \<open>sample * 32768 = 1.75\<close> rounds to 2,
  and \<^verbatim>\<open>createBlob\<close> stores 1.
\<close>

theorem createBlob_truncates:
  "map (\<lambda>x. ToInt16 (times_32768 x)) [Num (7 / 131072)] = [1] \<and>
   decode (data (createBlob [Num (7 / 131072)])) = Inr [1, 0] \<and>
   round (7 / 131072 * 32768 :: real) = 2"
  by (simp add: decode_createBlob truncate_number_def Uint8Array_view_def bytes_of_int16_def round_def)

section \<open>Opening, closing and muting\<close>

lemma stopSession_eq:
  "stopSession s =
     s\<lparr>calls := calls s @ released s, streamRef := None, processorRef := None, sourceRef := None,
        inputAudioContextRef := None, outputAudioContextRef := None, audioSourcesRef := [],
        nextStartTimeRef := 0, isConnected := False, isConnecting := False\<rparr>"
  by (simp add: stopSession_def released_def Let_def split: option.splits)

lemma released_stopSession: "released (stopSession s) = []"
  by (simp add: stopSession_eq released_def)

lemma stopSession_idem: "stopSession (stopSession s) = stopSession s"
  by (simp add: stopSession_eq [of "stopSession s"] released_stopSession) (simp add: stopSession_eq)

lemma stopSession_funpow: "0 < N \<Longrightarrow> (stopSession ^^ N) s = stopSession s"
proof (induction N)
  case 0
  then show ?case by simp
next
  case (Suc N)
  show ?case
  proof (cases "N = 0")
    case True
    then show ?thesis by simp
  next
    case False
    with Suc.IH show ?thesis by (simp add: stopSession_idem)
  qed
qed

lemma distinct_released: "distinct_objects s \<Longrightarrow> distinct (released s)"
  by (auto simp: distinct_objects_def released_def distinct_map inj_on_def split: option.splits)

text \<open>
  What \<^verbatim>\<open>stopSession\<close> does and does not do. From any state, \<open>N \<ge> 1\<close> calls leave what one
  call leaves. The calls made are those of \<open>released\<close>, one for each object the state holds,
  so that no call is made twice when the state names no object twice; every ref to a
  stream, node or context is empty afterwards, and the overlay is neither connected nor
  connecting. No call is made on the session, and the two refs to it are kept.
\<close>

lemma stopSession_releases_once:
  assumes "0 < N"
  shows "(stopSession ^^ N) s = stopSession s \<and>
         calls ((stopSession ^^ N) s) = calls s @ released s \<and>
         (distinct_objects s \<longrightarrow> distinct (released s)) \<and>
         streamRef ((stopSession ^^ N) s) = None \<and>
         processorRef ((stopSession ^^ N) s) = None \<and>
         sourceRef ((stopSession ^^ N) s) = None \<and>
         inputAudioContextRef ((stopSession ^^ N) s) = None \<and>
         outputAudioContextRef ((stopSession ^^ N) s) = None \<and>
         audioSourcesRef ((stopSession ^^ N) s) = [] \<and>
         \<not> isConnected ((stopSession ^^ N) s) \<and> \<not> isConnecting ((stopSession ^^ N) s)"
  unfolding stopSession_funpow [OF assms]
  by (simp add: distinct_released) (simp add: stopSession_eq)

lemma stopSession_keeps_session:
  assumes "0 < N"
  shows "sessionRef ((stopSession ^^ N) s) = sessionRef s"
    and "activeSessionRef ((stopSession ^^ N) s) = activeSessionRef s"
    and "SessionClose session \<notin> set (released s)"
  unfolding stopSession_funpow [OF assms]
  by (auto simp: stopSession_eq released_def split: option.splits)

text \<open>
  Claim C7 fails on the code. In the state \<open>live\<close>, with the session promise resolved to
  session 6, \<^verbatim>\<open>stopSession\<close> is called twice. Every device is released once and the overlay is
  neither connected nor connecting, but no call is made on session 6 and both refs still
  hold it: the session is not closed.
\<close>

theorem teardown_leaves_session_open:
  "(let s = session_resolved 6 live;
        s' = stopSession (stopSession s)
    in new_calls s s' =
         [TrackStop 3, ProcessorDisconnect 5, SourceDisconnect 4, ContextClose 1, ContextClose 2,
          BufferSourceStop 7, BufferSourceStop 8] \<and>
       SessionClose 6 \<notin> set (calls s') \<and>
       sessionRef s' = Some 6 \<and> activeSessionRef s' = Some 6 \<and>
       \<not> isConnected s' \<and> \<not> isConnecting s')"
  by (simp add: Let_def stopSession_idem stopSession_eq released_def new_calls_def
      session_resolved_def live_def mounted_def)

text \<open>
  \<^verbatim>\<open>startSession\<close> and its guard. When the flags of the scope say connecting or connected the
  call changes nothing; when they do not, and the key is there and \<^verbatim>\<open>getUserMedia\<close> resolves,
  it asks for one session. No part of \<^verbatim>\<open>startSession\<close> closes a session.
\<close>

lemma startSession_guard:
  "scope_isConnecting r \<or> scope_isConnected r \<Longrightarrow> startSession r p s = s"
  by (simp add: startSession_def startSession_sync_def)

lemma startSession_admitted:
  assumes "\<not> scope_isConnecting r" "\<not> scope_isConnected r" "API_KEY p = Some key" "key \<noteq> []"
    "getUserMedia p = Some stream"
  shows "calls (startSession r p s) = calls s @ [Connect (newSession p) (scope_selectedPersona r)]"
    and "isConnecting (startSession r p s)"
  using assms
  by (simp_all add: startSession_def startSession_sync_def startSession_resumed_def Let_def)

lemma startSession_never_closes:
  "SessionClose session \<notin> set (new_calls s (startSession r p s))"
  by (simp add: new_calls_def startSession_def startSession_sync_def startSession_resumed_def
      startSession_failed_def Let_def split: option.splits)

text \<open>
  Claim C6 fails on the code. The overlay is opened and its session 6 opens; the overlay is
  closed, which runs \<^verbatim>\<open>stopSession\<close>; the overlay is opened again, from a render of the closed
  state. The guard lets the second \<^verbatim>\<open>startSession\<close> pass and session 16 is requested, while
  session 6 was never closed: two sessions are alive.
\<close>

theorem sessions_stack_on_reopen:
  "(let p1 = \<lparr>API_KEY = Some ''k'', newInputContext = 1, newOutputContext = 2,
              getUserMedia = Some [3], newSession = 6\<rparr>;
        p2 = \<lparr>API_KEY = Some ''k'', newInputContext = 11, newOutputContext = 12,
              getUserMedia = Some [13], newSession = 16\<rparr>;
        s1 = session_resolved 6 (onopen 4 5 (startSession (render mounted) p1 mounted));
        s2 = stopSession s1;
        s3 = startSession (render s2) p2 s2
    in calls s3 =
         [Connect 6 VOICE_PERSONAS_0, TrackStop 3, ProcessorDisconnect 5, SourceDisconnect 4,
          ContextClose 1, ContextClose 2, Connect 16 VOICE_PERSONAS_0] \<and>
       activeSessionRef s3 = Some 6 \<and> sessionRef s3 = Some 16 \<and> isConnecting s3)"
  by (simp add: Let_def render_def mounted_def startSession_def startSession_sync_def
      startSession_resumed_def onopen_def session_resolved_def stopSession_eq released_def)

text \<open>
  Sessions also stack without any session having opened. A first \<^verbatim>\<open>startSession\<close> waits for
  \<^verbatim>\<open>getUserMedia\<close>; the overlay is closed and opened again, and the second \<^verbatim>\<open>startSession\<close>
  passes the guard and waits too; then both resume, and each asks for a session. The stream
  of the first is overwritten in \<^verbatim>\<open>streamRef\<close> and can no longer be stopped.
\<close>

lemma sessions_stack_while_waiting:
  "(let p1 = \<lparr>API_KEY = Some ''k'', newInputContext = 1, newOutputContext = 2,
              getUserMedia = Some [3], newSession = 6\<rparr>;
        p2 = \<lparr>API_KEY = Some ''k'', newInputContext = 11, newOutputContext = 12,
              getUserMedia = Some [13], newSession = 16\<rparr>;
        r1 = render mounted;
        s1 = snd (startSession_sync r1 p1 mounted);
        s2 = stopSession s1;
        r2 = render s2;
        s3 = snd (startSession_sync r2 p2 s2);
        s4 = startSession_resumed r1 p1 s3;
        s5 = startSession_resumed r2 p2 s4
    in fst (startSession_sync r1 p1 mounted) \<and> fst (startSession_sync r2 p2 s2) \<and>
       calls s5 =
         [ContextClose 1, ContextClose 2, Connect 6 VOICE_PERSONAS_0, Connect 16 VOICE_PERSONAS_0] \<and>
       streamRef s5 = Some [13])"
  by (simp add: Let_def render_def mounted_def startSession_sync_def startSession_resumed_def
      stopSession_eq released_def)

lemma onaudioprocess_scope:
  "calls (onaudioprocess r inputData s) =
     (if scope_isMuted r then calls s else calls s @ [SendRealtimeInput (createBlob inputData)])"
  by (simp add: onaudioprocess_def)

text \<open>
  Claim C5 fails on the code. The overlay is opened unmuted, the session opens, the mute
  button is pressed, and a frame is captured: \<^verbatim>\<open>isMuted\<close> is true, and the handler, which
  tests the \<^verbatim>\<open>isMuted\<close> of the render that started the session, sends the frame.
\<close>

theorem mute_not_seen_by_processor:
  "(let p = \<lparr>API_KEY = Some ''k'', newInputContext = 1, newOutputContext = 2,
             getUserMedia = Some [3], newSession = 6\<rparr>;
        r = render mounted;
        s1 = onopen 4 5 (startSession r p mounted);
        s2 = toggle_mute (render s1) s1;
        s3 = onaudioprocess r [Num (1 / 2)] s2
    in isMuted s2 \<and> calls s3 = calls s2 @ [SendRealtimeInput (createBlob [Num (1 / 2)])])"
  by (simp add: Let_def render_def mounted_def startSession_def startSession_sync_def
      startSession_resumed_def onopen_def toggle_mute_def
      onaudioprocess_def)

section \<open>The message handler\<close>

lemma decodeAudioData_duration:
  assumes "decodeAudioData bytes rate numChannels = Inr buffer"
  shows "duration buffer = real (frames buffer) / rate"
proof -
  from assms have pos: "0 < numChannels"
    by (rule decodeAudioData_channels_positive)
  from assms have "sampleRate buffer = rate"
    unfolding decodeAudioData_eq [OF pos] by (auto split: if_splits)
  then show ?thesis by (simp add: duration_def)
qed

lemma calls_handle_interruption:
  "calls (handle_interruption msg s) =
     calls s @ (if interrupted msg then map BufferSourceStop (audioSourcesRef s) else [])"
  by (simp add: handle_interruption_def)

lemma schedule_buffer_eq:
  "schedule_buffer audioBuffer currentTime source s =
     s\<lparr>calls := calls s @ [BufferSourceStart source (max currentTime (nextStartTimeRef s))],
        nextStartTimeRef := max currentTime (nextStartTimeRef s) + duration audioBuffer,
        audioSourcesRef := set_add source (audioSourcesRef s)\<rparr>"
  by (simp add: schedule_buffer_def Let_def max_def)

lemma onmessage_chunk:
  assumes "chunk_frames msg = Some n" and "outputAudioContextRef s = Some ctx"
  shows "onmessage msg currentTime source s =
     (None, handle_interruption msg
        (s\<lparr>calls := calls s @ [BufferSourceStart source (max currentTime (nextStartTimeRef s))],
           nextStartTimeRef := max currentTime (nextStartTimeRef s) + real n / 24000,
           audioSourcesRef := set_add source (audioSourcesRef s)\<rparr>))"
proof -
  from assms(1) obtain b64 bytes audioBuffer where
    m: "base64Audio msg = Some b64" "b64 \<noteq> []" "decode b64 = Inr bytes"
      "decodeAudioData bytes 24000 1 = Inr audioBuffer" "frames audioBuffer = n"
    by (auto simp: chunk_frames_def split: option.splits if_splits sum.splits)
  from decodeAudioData_duration [OF m(4)] m(5)
  have d: "duration audioBuffer = real n / 24000" by simp
  from m assms(2) show ?thesis
    by (simp add: onmessage_def schedule_buffer_eq d)
qed

lemma onmessage_no_chunk:
  assumes "chunk_frames msg = None \<or> outputAudioContextRef s = None"
  shows "snd (onmessage msg currentTime source s) = s \<or>
         ((base64Audio msg = None \<or> base64Audio msg = Some []) \<and>
          onmessage msg currentTime source s = (None, handle_interruption msg s))"
  using assms
  by (auto simp: onmessage_def chunk_frames_def split: option.splits if_splits sum.splits)

lemma new_calls_append: "calls s' = calls s @ cs \<Longrightarrow> new_calls s s' = cs"
  by (simp add: new_calls_def)

lemma new_calls_same: "new_calls s s = []"
  by (simp add: new_calls_def)

lemma createBlob_data_nonempty: "samples \<noteq> [] \<Longrightarrow> data (createBlob samples) \<noteq> []"
proof -
  assume "samples \<noteq> []"
  then have "map (\<lambda>b. char_of (unat b)) (Uint8Array_view (map (\<lambda>x. ToInt16 (times_32768 x)) samples)) \<noteq> []"
    by (cases samples) (simp_all add: Uint8Array_view_def bytes_of_int16_def)
  from length_btoa_ge [OF this] show ?thesis
    by (auto simp: createBlob_def)
qed

lemma chunk_frames_createBlob:
  assumes "samples \<noteq> []" and "length samples < 2 ^ 32"
  shows "chunk_frames \<lparr>base64Audio = Some (data (createBlob samples)), interrupted = i\<rparr>
         = Some (length samples)"
  using assms createBlob_data_nonempty [OF assms(1)]
  by (simp add: chunk_frames_def decode_createBlob decodeAudioData_eq length_Uint8Array_view)

lemma onmessage_cases:
  obtains (scheduled) n ctx where "chunk_frames msg = Some n" "outputAudioContextRef s = Some ctx"
      "snd (onmessage msg now src s) = handle_interruption msg
        (s\<lparr>calls := calls s @ [BufferSourceStart src (max now (nextStartTimeRef s))],
           nextStartTimeRef := max now (nextStartTimeRef s) + real n / 24000,
           audioSourcesRef := set_add src (audioSourcesRef s)\<rparr>)"
  | (dropped) "snd (onmessage msg now src s) = s"
  | (silent) "base64Audio msg = None \<or> base64Audio msg = Some []"
      "snd (onmessage msg now src s) = handle_interruption msg s"
proof (cases "chunk_frames msg = None \<or> outputAudioContextRef s = None")
  case True
  from onmessage_no_chunk [OF this, of now src] show ?thesis
    using dropped silent by auto
next
  case False
  then obtain n ctx where "chunk_frames msg = Some n" "outputAudioContextRef s = Some ctx"
    by auto
  with onmessage_chunk [OF this, of now src] show ?thesis
    using scheduled by simp
qed

text \<open>
  Claim C4. Every start time \<^verbatim>\<open>onmessage\<close> passes to \<^verbatim>\<open>source.start\<close> is at least the device
  time and at least the cursor, and is the device time when the cursor has fallen behind it.
  A message that carries no interruption never moves the cursor back, and no other handler
  of a live session (\<^verbatim>\<open>onopen\<close>, \<^verbatim>\<open>onaudioprocess\<close>, \<^verbatim>\<open>onended\<close>, \<^verbatim>\<open>onclose\<close>, \<^verbatim>\<open>onerror\<close>, the mute
  button, a guarded or an admitted \<^verbatim>\<open>startSession\<close>) moves it at all.
\<close>

theorem playback_clock:
  "(\<forall>b t. BufferSourceStart b t \<in> set (new_calls s (snd (onmessage msg now src s))) \<longrightarrow>
       now \<le> t \<and> nextStartTimeRef s \<le> t \<and> (nextStartTimeRef s < now \<longrightarrow> t = now)) \<and>
   (\<not> interrupted msg \<longrightarrow> nextStartTimeRef s \<le> nextStartTimeRef (snd (onmessage msg now src s))) \<and>
   nextStartTimeRef (onopen node processor s) = nextStartTimeRef s \<and>
   nextStartTimeRef (onaudioprocess r inputData s) = nextStartTimeRef s \<and>
   nextStartTimeRef (onended b' s) = nextStartTimeRef s \<and>
   nextStartTimeRef (onclose s) = nextStartTimeRef s \<and>
   nextStartTimeRef (onerror s) = nextStartTimeRef s \<and>
   nextStartTimeRef (toggle_mute r s) = nextStartTimeRef s \<and>
   nextStartTimeRef (session_resolved session s) = nextStartTimeRef s \<and>
   nextStartTimeRef (startSession r p s) = nextStartTimeRef s"
proof -
  have sched: "\<forall>b t. BufferSourceStart b t \<in> set (new_calls s (snd (onmessage msg now src s))) \<longrightarrow>
       now \<le> t \<and> nextStartTimeRef s \<le> t \<and> (nextStartTimeRef s < now \<longrightarrow> t = now)"
  proof (cases rule: onmessage_cases [where msg=msg and s=s and now=now and src=src])
    case (scheduled n ctx)
    have "calls (snd (onmessage msg now src s)) =
        calls s @ ([BufferSourceStart src (max now (nextStartTimeRef s))] @
          (if interrupted msg then map BufferSourceStop (set_add src (audioSourcesRef s)) else []))"
      by (simp add: scheduled(3) calls_handle_interruption)
    from new_calls_append [OF this] show ?thesis by auto
  next
    case dropped
    then show ?thesis by (simp add: new_calls_same)
  next
    case silent
    have "calls (snd (onmessage msg now src s)) =
        calls s @ (if interrupted msg then map BufferSourceStop (audioSourcesRef s) else [])"
      by (simp add: silent(2) calls_handle_interruption)
    from new_calls_append [OF this] show ?thesis by auto
  qed
  have mono: "\<not> interrupted msg \<longrightarrow>
      nextStartTimeRef s \<le> nextStartTimeRef (snd (onmessage msg now src s))"
  proof (cases rule: onmessage_cases [where msg=msg and s=s and now=now and src=src])
    case (scheduled n ctx)
    have "0 \<le> real n / 24000" by simp
    then show ?thesis by (auto simp: scheduled(3) handle_interruption_def)
  next
    case dropped
    then show ?thesis by simp
  next
    case silent
    then show ?thesis by (simp add: handle_interruption_def)
  qed
  have others: "nextStartTimeRef (onopen node processor s) = nextStartTimeRef s"
    "nextStartTimeRef (onaudioprocess r inputData s) = nextStartTimeRef s"
    "nextStartTimeRef (onended b' s) = nextStartTimeRef s"
    "nextStartTimeRef (onclose s) = nextStartTimeRef s"
    "nextStartTimeRef (onerror s) = nextStartTimeRef s"
    "nextStartTimeRef (toggle_mute r s) = nextStartTimeRef s"
    "nextStartTimeRef (session_resolved session s) = nextStartTimeRef s"
    "nextStartTimeRef (startSession r p s) = nextStartTimeRef s"
    by (simp_all add: onopen_def onaudioprocess_def onended_def onclose_def onerror_def
        toggle_mute_def session_resolved_def startSession_def startSession_sync_def
        startSession_resumed_def startSession_failed_def Let_def
        split: option.splits)
  from sched mono others show ?thesis by blast
qed

lemma chunk_frames_half_second: "chunk_frames half_second = Some 12000"
  unfolding half_second_def
  by (rule chunk_frames_createBlob [of "replicate 12000 (Num 0)", simplified])

lemma onmessage_half_second:
  assumes "outputAudioContextRef s = Some ctx"
  shows "snd (onmessage half_second now src s) =
     s\<lparr>calls := calls s @ [BufferSourceStart src (max now (nextStartTimeRef s))],
        nextStartTimeRef := max now (nextStartTimeRef s) + 1 / 2,
        audioSourcesRef := set_add src (audioSourcesRef s)\<rparr>"
proof -
  have "\<not> interrupted half_second" by (simp add: half_second_def)
  then show ?thesis
    by (simp add: onmessage_chunk [OF chunk_frames_half_second assms] handle_interruption_def)
qed

text \<open>
  In the state \<open>live\<close> the cursor stands at 1.5; a chunk that arrives at device time 2
  starts at 2.
\<close>

theorem playback_clock_witness:
  "BufferSourceStart 9 2 \<in> set (new_calls live (snd (onmessage half_second 2 9 live))) \<and>
   nextStartTimeRef live < 2 \<and> (2 :: real) \<le> 2 \<and>
   nextStartTimeRef live \<le> nextStartTimeRef (snd (onmessage half_second 2 9 live))"
proof -
  have ctx: "outputAudioContextRef live = Some 2"
    by (simp add: live_def)
  have cur: "nextStartTimeRef live = 3 / 2"
    by (simp add: live_def)
  have "calls (snd (onmessage half_second 2 9 live)) = calls live @ [BufferSourceStart 9 2]"
    by (simp add: onmessage_half_second [OF ctx] cur)
  from new_calls_append [OF this]
  have m: "BufferSourceStart 9 2 \<in> set (new_calls live (snd (onmessage half_second 2 9 live)))"
    by simp
  have n: "\<not> interrupted half_second" by (simp add: half_second_def)
  from playback_clock [of live half_second 2 9]
  have "\<not> interrupted half_second \<longrightarrow>
      nextStartTimeRef live \<le> nextStartTimeRef (snd (onmessage half_second 2 9 live))"
    by blast
  with n have mono: "nextStartTimeRef live \<le> nextStartTimeRef (snd (onmessage half_second 2 9 live))"
    by blast
  have "nextStartTimeRef live < 2" "(2 :: real) \<le> 2"
    by (simp_all add: cur)
  with m mono show ?thesis by blast
qed

lemma count_list_stops:
  "distinct xs \<Longrightarrow>
     count_list (map BufferSourceStop xs) (BufferSourceStop b) = (if b \<in> set xs then 1 else 0)"
  by (induction xs) auto

lemma count_list_start_stop:
  "count_list (BufferSourceStart a t # cs) (BufferSourceStop b) = count_list cs (BufferSourceStop b)"
  by simp

lemma distinct_set_add: "distinct xs \<Longrightarrow> distinct (set_add x xs)"
  by (simp add: set_add_def)

lemma set_set_add: "set (set_add x xs) = insert x (set xs)"
  by (auto simp: set_add_def)

lemma distinct_audioSources_onmessage:
  assumes "distinct (audioSourcesRef s)"
  shows "distinct (audioSourcesRef (snd (onmessage msg now src s)))"
proof (cases rule: onmessage_cases [where msg=msg and s=s and now=now and src=src])
  case (scheduled n ctx)
  with distinct_set_add [OF assms, of src] show ?thesis
    by (simp add: handle_interruption_def)
next
  case dropped
  with assms show ?thesis by simp
next
  case silent
  with assms show ?thesis by (simp add: handle_interruption_def)
qed

lemma distinct_audioSources_onended:
  "distinct (audioSourcesRef s) \<Longrightarrow> distinct (audioSourcesRef (onended source s))"
  by (simp add: onended_def set_delete_def)

lemma start_after_flush:
  assumes "nextStartTimeRef s' = 0" and "0 \<le> later"
  shows "\<forall>b t. BufferSourceStart b t \<in> set (new_calls s' (snd (onmessage next later src' s'))) \<longrightarrow>
           t = later"
proof (cases rule: onmessage_cases [where msg="next" and s=s' and now=later and src=src'])
  case (scheduled n ctx)
  have "calls (snd (onmessage next later src' s')) =
      calls s' @ ([BufferSourceStart src' (max later (nextStartTimeRef s'))] @
        (if interrupted next then map BufferSourceStop (set_add src' (audioSourcesRef s')) else []))"
    by (simp add: scheduled(3) calls_handle_interruption)
  from new_calls_append [OF this] assms show ?thesis by auto
next
  case dropped
  then show ?thesis by (simp add: new_calls_same)
next
  case silent
  have "calls (snd (onmessage next later src' s')) =
      calls s' @ (if interrupted next then map BufferSourceStop (audioSourcesRef s') else [])"
    by (simp add: silent(2) calls_handle_interruption)
  from new_calls_append [OF this] show ?thesis by auto
qed

text \<open>
  Claim C3. Let a message carry an interruption and let \<^verbatim>\<open>onmessage\<close> reach the flush (the
  message has no audio, or its audio is decoded and scheduled first). Afterwards the set of
  pending sources is empty and the cursor is 0; \<^verbatim>\<open>stop\<close> was called exactly once on every
  source that was in the set, and on the source scheduled by this very message, and on no
  other; and whatever buffer the next message schedules, at a device time \<open>later \<ge> 0\<close>,
  starts at \<open>later\<close>.
\<close>

theorem interruption_flush:
  assumes "interrupted msg"
    and "base64Audio msg = None \<or> base64Audio msg = Some [] \<or>
         (chunk_frames msg \<noteq> None \<and> outputAudioContextRef s \<noteq> None)"
    and "distinct (audioSourcesRef s)"
    and "0 \<le> later"
  shows "audioSourcesRef (snd (onmessage msg now src s)) = [] \<and>
         nextStartTimeRef (snd (onmessage msg now src s)) = 0 \<and>
         (\<forall>b. count_list (new_calls s (snd (onmessage msg now src s))) (BufferSourceStop b) =
               (if b \<in> set (audioSourcesRef s) \<or> (chunk_frames msg \<noteq> None \<and> b = src)
                then 1 else 0)) \<and>
         (\<forall>b t. BufferSourceStart b t \<in>
                  set (new_calls (snd (onmessage msg now src s))
                         (snd (onmessage next later src' (snd (onmessage msg now src s))))) \<longrightarrow>
                t = later)"
proof -
  let ?s' = "snd (onmessage msg now src s)"
  have flush: "audioSourcesRef ?s' = [] \<and> nextStartTimeRef ?s' = 0 \<and>
      (\<forall>b. count_list (new_calls s ?s') (BufferSourceStop b) =
               (if b \<in> set (audioSourcesRef s) \<or> (chunk_frames msg \<noteq> None \<and> b = src)
                then 1 else 0))"
  proof (cases "chunk_frames msg")
    case None
    with assms(2) have silent: "base64Audio msg = None \<or> base64Audio msg = Some []"
      by blast
    then have s': "?s' = handle_interruption msg s"
      by (auto simp: onmessage_def)
    have "calls ?s' = calls s @ map BufferSourceStop (audioSourcesRef s)"
      using assms(1) by (simp add: s' calls_handle_interruption)
    from new_calls_append [OF this] assms(1,3) None show ?thesis
      by (simp add: s' handle_interruption_def count_list_stops)
  next
    case (Some n)
    with assms(2) obtain ctx where ctx: "outputAudioContextRef s = Some ctx"
      by (auto simp: chunk_frames_def)
    have s': "?s' = handle_interruption msg
        (s\<lparr>calls := calls s @ [BufferSourceStart src (max now (nextStartTimeRef s))],
           nextStartTimeRef := max now (nextStartTimeRef s) + real n / 24000,
           audioSourcesRef := set_add src (audioSourcesRef s)\<rparr>)"
      by (simp add: onmessage_chunk [OF Some ctx])
    have "calls ?s' = calls s @ (BufferSourceStart src (max now (nextStartTimeRef s)) #
        map BufferSourceStop (set_add src (audioSourcesRef s)))"
      using assms(1) by (simp add: s' calls_handle_interruption)
    from new_calls_append [OF this]
    have new: "new_calls s ?s' = BufferSourceStart src (max now (nextStartTimeRef s)) #
        map BufferSourceStop (set_add src (audioSourcesRef s))" .
    have "count_list (new_calls s ?s') (BufferSourceStop b) =
        (if b \<in> set (audioSourcesRef s) \<or> b = src then 1 else 0)" for b
      unfolding new count_list_start_stop
      using count_list_stops [OF distinct_set_add [OF assms(3), of src], where b=b]
      by (auto simp: set_set_add)
    with assms(1) Some show ?thesis
      by (simp add: s' handle_interruption_def)
  qed
  then have "nextStartTimeRef ?s' = 0" by blast
  from start_after_flush [OF this assms(4)] flush show ?thesis
    by blast
qed

text \<open>
  An interruption in the state \<open>live\<close>, whose set holds the sources 7 and 8, and a chunk that
  arrives afterwards at device time 1, before the old cursor 1.5.
\<close>

theorem interruption_flush_witness:
  "audioSourcesRef (snd (onmessage \<lparr>base64Audio = None, interrupted = True\<rparr> 1 9 live)) = [] \<and>
   nextStartTimeRef (snd (onmessage \<lparr>base64Audio = None, interrupted = True\<rparr> 1 9 live)) = 0 \<and>
   count_list (new_calls live (snd (onmessage \<lparr>base64Audio = None, interrupted = True\<rparr> 1 9 live)))
     (BufferSourceStop 7) = 1 \<and>
   count_list (new_calls live (snd (onmessage \<lparr>base64Audio = None, interrupted = True\<rparr> 1 9 live)))
     (BufferSourceStop 8) = 1 \<and>
   new_calls (snd (onmessage \<lparr>base64Audio = None, interrupted = True\<rparr> 1 9 live))
     (snd (onmessage half_second 1 10
        (snd (onmessage \<lparr>base64Audio = None, interrupted = True\<rparr> 1 9 live))))
     = [BufferSourceStart 10 1]"
proof -
  let ?msg = "\<lparr>base64Audio = None, interrupted = True\<rparr>"
  let ?s' = "snd (onmessage ?msg 1 9 live)"
  have h: "interrupted ?msg"
    "base64Audio ?msg = None \<or> base64Audio ?msg = Some [] \<or>
       (chunk_frames ?msg \<noteq> None \<and> outputAudioContextRef live \<noteq> None)"
    "distinct (audioSourcesRef live)" "(0 :: real) \<le> 1"
    by (simp_all add: live_def)
  from interruption_flush [OF h, of 1 9]
  have empty: "audioSourcesRef ?s' = []" and zero: "nextStartTimeRef ?s' = 0"
    and count: "\<forall>b. count_list (new_calls live ?s') (BufferSourceStop b) =
               (if b \<in> set (audioSourcesRef live) \<or> (chunk_frames ?msg \<noteq> None \<and> b = 9)
                then 1 else 0)"
    by blast+
  have members: "7 \<in> set (audioSourcesRef live)" "8 \<in> set (audioSourcesRef live)"
    by (simp_all add: live_def)
  from count members have c7: "count_list (new_calls live ?s') (BufferSourceStop 7) = 1"
    and c8: "count_list (new_calls live ?s') (BufferSourceStop 8) = 1"
    by simp_all
  have "outputAudioContextRef ?s' = Some 2"
    by (simp add: onmessage_def handle_interruption_def live_def)
  from onmessage_half_second [OF this, of 1 10] zero
  have "calls (snd (onmessage half_second 1 10 ?s')) = calls ?s' @ [BufferSourceStart 10 1]"
    by simp
  from new_calls_append [OF this] empty zero c7 c8 show ?thesis
    by simp
qed

section \<open>Decode failures\<close>

lemma onmessage_error_keeps_state:
  "fst (onmessage msg now src s) = Some e \<Longrightarrow> snd (onmessage msg now src s) = s"
  by (auto simp: onmessage_def split: option.splits if_splits sum.splits)

lemma no_frame_iff:
  fixes n numChannels :: nat
  assumes "0 < numChannels" "even n" "n < 2 ^ 32"
  shows "(n div 2 div numChannels) mod 2 ^ 32 = 0 \<longleftrightarrow> n < 2 * numChannels"
proof -
  have "n div 2 div numChannels \<le> n" 
    by (meson div_le_dividend le_trans)
  with assms(3) have "(n div 2 div numChannels) mod 2 ^ 32 = n div 2 div numChannels"
    by simp
  moreover have "n div 2 div numChannels = 0 \<longleftrightarrow> n div 2 < numChannels"
    using assms(1) by (simp add: div_eq_0_iff)
  moreover have "n div 2 < numChannels \<longleftrightarrow> n < 2 * numChannels"
    using assms(2) by (auto elim!: evenE)
  ultimately show ?thesis by simp
qed

text \<open>
  Claim C8, as amended. For at least one channel and fewer than \<open>2^32\<close> bytes,
  \<^verbatim>\<open>decodeAudioData\<close> throws exactly when the byte length is odd (a \<^verbatim>\<open>RangeError\<close> of the
  \<^verbatim>\<open>Int16Array\<close> constructor) or the packet holds no complete frame (a \<^verbatim>\<open>NotSupportedError\<close>
  of \<^verbatim>\<open>createBuffer\<close>). Otherwise it returns the complete frames and leaves out the bytes of an
  incomplete last one. When \<^verbatim>\<open>onmessage\<close> ends with an exception, the state of the overlay is
  what it was: the chunk is dropped and nothing is torn down.
\<close>

theorem decode_failure:
  assumes "0 < numChannels" and "length bytes < 2 ^ 32"
  shows "((\<exists>e. decodeAudioData bytes rate numChannels = Inl e) \<longleftrightarrow>
            odd (length bytes) \<or> length bytes < 2 * numChannels) \<and>
         (decodeAudioData bytes rate numChannels = Inl RangeError \<longleftrightarrow> odd (length bytes)) \<and>
         (\<forall>buffer. decodeAudioData bytes rate numChannels = Inr buffer \<longrightarrow>
            frames buffer = length bytes div (2 * numChannels)) \<and>
         (\<forall>e. fst (onmessage msg now src s) = Some e \<longrightarrow> snd (onmessage msg now src s) = s)"
proof (cases "odd (length bytes)")
  case True
  with assms(1) show ?thesis
    by (simp add: decodeAudioData_eq onmessage_error_keeps_state)
next
  case False
  then have even: "even (length bytes)" by simp
  note nf = no_frame_iff [OF assms(1) even assms(2)]
  have le: "length bytes div 2 div numChannels \<le> length bytes"
    by (meson div_le_dividend le_trans)
  with assms(2) have m: "(length bytes div 2 div numChannels) mod 2 ^ 32
      = length bytes div (2 * numChannels)"
    by (simp add: div_mult2_eq)
  show ?thesis
  proof (cases "length bytes < 2 * numChannels")
    case True
    with nf have "(length bytes div 2 div numChannels) mod 2 ^ 32 = 0" by simp
    with even True assms(1) show ?thesis
      by (simp add: decodeAudioData_eq onmessage_error_keeps_state)
  next
    case False
    with nf have "(length bytes div 2 div numChannels) mod 2 ^ 32 \<noteq> 0" by simp
    with even False assms(1) m show ?thesis
      by (simp add: decodeAudioData_eq onmessage_error_keeps_state)
  qed
qed

lemma decode_AAAA: "decode ''AAAA'' = Inr [0, 0, 0]"
  by (simp add: decode_def atob_def strip_padding_def ascii_whitespace_def b64_value_def)

text \<open>
  Three bytes on one channel are refused; in the state \<open>live\<close> a message whose audio is three
  bytes long ends \<^verbatim>\<open>onmessage\<close> with the \<^verbatim>\<open>RangeError\<close> and changes nothing.
\<close>

theorem decode_failure_witness:
  "(\<exists>e. decodeAudioData [0, 0, 0] 24000 1 = Inl e) \<and>
   fst (onmessage \<lparr>base64Audio = Some ''AAAA'', interrupted = False\<rparr> 1 9 live) = Some RangeError \<and>
   snd (onmessage \<lparr>base64Audio = Some ''AAAA'', interrupted = False\<rparr> 1 9 live) = live"
proof -
  let ?msg = "\<lparr>base64Audio = Some ''AAAA'', interrupted = False\<rparr>"
  have h: "0 < (1 :: nat)" "length [0, 0, 0 :: 8 word] < 2 ^ 32"
    by simp_all
  from decode_failure [OF h, of 24000 ?msg 1 9 live]
  have a: "(\<exists>e. decodeAudioData [0, 0, 0] 24000 1 = Inl e) \<longleftrightarrow>
            odd (length [0, 0, 0 :: 8 word]) \<or> length [0, 0, 0 :: 8 word] < 2 * 1"
    and b: "\<forall>e. fst (onmessage ?msg 1 9 live) = Some e \<longrightarrow> snd (onmessage ?msg 1 9 live) = live"
    by blast+
  from a have a': "\<exists>e. decodeAudioData [0, 0, 0] 24000 1 = Inl e" by simp
  have "decodeAudioData [0, 0, 0] 24000 1 = Inl RangeError"
    by (simp add: decodeAudioData_def Int16Array_view_def)
  then have c: "fst (onmessage ?msg 1 9 live) = Some RangeError"
    by (simp add: onmessage_def decode_AAAA live_def)
  with b have "snd (onmessage ?msg 1 9 live) = live" by blast
  with a' c show ?thesis by blast
qed

text \<open>
  Claim C8 as stated fails on six bytes for two channels: 6 is not a multiple of
  \<open>2 * 2\<close>, and \<^verbatim>\<open>decodeAudioData\<close> returns one frame.
\<close>

theorem decode_accepts_partial_frame:
  "decodeAudioData [0, 0, 0, 0, 0, 0] 24000 2 =
     Inr \<lparr>sampleRate = 24000, frames = 1, channels = [[Num 0], [Num 0]]\<rparr> \<and>
   length [0, 0, 0, 0, 0, 0 :: 8 word] mod (2 * 2) = 2"
  by (simp add: decodeAudioData_eq upt_conv_Cons)

section \<open>Gapless scheduling\<close>

lemma start_times_append: "start_times (xs @ ys) = start_times xs @ start_times ys"
  by (induction xs rule: start_times.induct) simp_all

lemma length_back_to_back: "length (back_to_back t ds) = length ds"
  by (induction ds arbitrary: t) simp_all

lemma nth_back_to_back:
  "Suc i < length ds \<Longrightarrow> back_to_back t ds ! Suc i = back_to_back t ds ! i + ds ! i"
proof (induction ds arbitrary: t i)
  case Nil
  then show ?case by simp
next
  case (Cons d ds)
  show ?case
  proof (cases i)
    case 0
    with Cons.prems show ?thesis by (cases ds) simp_all
  next
    case (Suc k)
    with Cons.prems have "Suc k < length ds" by simp
    from Cons.IH [OF this, of "t + d"] Suc show ?thesis by simp
  qed
qed

lemma onmessage_plain_chunk:
  assumes "chunk_frames msg \<noteq> None" "\<not> interrupted msg" "outputAudioContextRef s = Some ctx"
  shows "snd (onmessage msg now src s) =
     s\<lparr>calls := calls s @ [BufferSourceStart src (max now (nextStartTimeRef s))],
        nextStartTimeRef := max now (nextStartTimeRef s) + chunk_duration msg,
        audioSourcesRef := set_add src (audioSourcesRef s)\<rparr>"
proof -
  from assms(1) obtain n where n: "chunk_frames msg = Some n" by auto
  from onmessage_chunk [OF n assms(3), of now src] assms(2) n show ?thesis
    by (simp add: handle_interruption_def chunk_duration_def)
qed

lemma chunk_frames_bytes:
  assumes "chunk_frames msg = Some n"
  obtains b64 bytes where "base64Audio msg = Some b64" "decode b64 = Inr bytes"
    "n = (length bytes div 2) mod 2 ^ 32"
proof -
  from assms obtain b64 bytes audioBuffer where
    m: "base64Audio msg = Some b64" "decode b64 = Inr bytes"
      "decodeAudioData bytes 24000 1 = Inr audioBuffer" "frames audioBuffer = n"
    by (auto simp: chunk_frames_def split: option.splits if_splits sum.splits)
  from m(3,4) have "n = (length bytes div 2) mod 2 ^ 32"
    by (auto simp: decodeAudioData_eq split: if_splits)
  with m(1,2) that show ?thesis by blast
qed

lemma deliver_in_time:
  assumes "outputAudioContextRef s = Some ctx"
    and "\<forall>x \<in> set run. chunk_frames (fst x) \<noteq> None \<and> \<not> interrupted (fst x)"
    and "in_time run s"
  shows "start_times (calls (deliver run s)) =
         start_times (calls s) @ back_to_back (nextStartTimeRef s) (map (chunk_duration \<circ> fst) run)"
  using assms
proof (induction run arbitrary: s)
  case Nil
  then show ?case by simp
next
  case (Cons x run)
  obtain msg now src where x: "x = (msg, now, src)" by (cases x)
  let ?s1 = "snd (onmessage msg now src s)"
  from Cons.prems x have valid: "chunk_frames msg \<noteq> None" "\<not> interrupted msg"
    and rest: "\<forall>x \<in> set run. chunk_frames (fst x) \<noteq> None \<and> \<not> interrupted (fst x)"
    and early: "now \<le> nextStartTimeRef s" and later: "in_time run ?s1"
    by simp_all
  note s1 = onmessage_plain_chunk [OF valid Cons.prems(1), of now src]
  from early have mx: "max now (nextStartTimeRef s) = nextStartTimeRef s" by simp
  have ctx1: "outputAudioContextRef ?s1 = Some ctx"
    by (simp add: s1 Cons.prems(1))
  have "start_times (calls (deliver (x # run) s)) = start_times (calls (deliver run ?s1))"
    by (simp add: x)
  also have "\<dots> = start_times (calls ?s1) @
      back_to_back (nextStartTimeRef ?s1) (map (chunk_duration \<circ> fst) run)"
    by (rule Cons.IH [OF ctx1 rest later])
  also have "\<dots> = start_times (calls s) @
      back_to_back (nextStartTimeRef s) (map (chunk_duration \<circ> fst) (x # run))"
    by (simp add: s1 mx x start_times_append)
  finally show ?case .
qed

text \<open>
  Claim C2. A decodable chunk that arrives at device time \<open>now\<close> is started at
  \<open>max now cursor\<close>, and the cursor moves to that start time plus the chunk's duration, its
  number of frames over 24000. When further chunks follow, each arriving no later than the
  cursor stands (before the audio scheduled so far has finished), every chunk starts exactly
  where the one before it ends.
\<close>

theorem gapless_scheduling:
  assumes "outputAudioContextRef s = Some ctx"
    and "\<forall>x \<in> set ((msg, now, src) # rest). chunk_frames (fst x) \<noteq> None \<and> \<not> interrupted (fst x)"
    and "in_time rest (snd (onmessage msg now src s))"
  shows "\<exists>starts.
           start_times (calls (deliver ((msg, now, src) # rest) s)) = start_times (calls s) @ starts \<and>
           length starts = Suc (length rest) \<and>
           starts ! 0 = max now (nextStartTimeRef s) \<and>
           nextStartTimeRef (snd (onmessage msg now src s)) =
             max now (nextStartTimeRef s) + chunk_duration msg \<and>
           (\<forall>i < length rest.
              starts ! Suc i = starts ! i + chunk_duration (fst (((msg, now, src) # rest) ! i)))"
proof -
  let ?run = "(msg, now, src) # rest"
  let ?s1 = "snd (onmessage msg now src s)"
  let ?t = "max now (nextStartTimeRef s)"
  let ?ds = "map (chunk_duration \<circ> fst) ?run"
  from assms(2) have valid: "chunk_frames msg \<noteq> None" "\<not> interrupted msg"
    and rest: "\<forall>x \<in> set rest. chunk_frames (fst x) \<noteq> None \<and> \<not> interrupted (fst x)"
    by simp_all
  note s1 = onmessage_plain_chunk [OF valid assms(1), of now src]
  have ctx1: "outputAudioContextRef ?s1 = Some ctx"
    by (simp add: s1 assms(1))
  have cursor: "nextStartTimeRef ?s1 = ?t + chunk_duration msg"
    by (simp add: s1)
  have "start_times (calls (deliver ?run s)) = start_times (calls (deliver rest ?s1))"
    by simp
  also have "\<dots> = start_times (calls ?s1) @
      back_to_back (nextStartTimeRef ?s1) (map (chunk_duration \<circ> fst) rest)"
    by (rule deliver_in_time [OF ctx1 rest assms(3)])
  also have "\<dots> = start_times (calls s) @ back_to_back ?t ?ds"
    by (simp add: s1 start_times_append)
  finally have starts: "start_times (calls (deliver ?run s)) =
      start_times (calls s) @ back_to_back ?t ?ds" .
  have len: "length (back_to_back ?t ?ds) = Suc (length rest)"
    by (simp add: length_back_to_back)
  have first: "back_to_back ?t ?ds ! 0 = ?t" by simp
  have step: "back_to_back ?t ?ds ! Suc i = back_to_back ?t ?ds ! i + chunk_duration (fst (?run ! i))"
    if "i < length rest" for i
  proof -
    from that have "Suc i < length ?ds" by simp
    from nth_back_to_back [OF this, of ?t] that show ?thesis
      by (simp add: nth_Cons split: nat.splits)
  qed
  from starts len first cursor step show ?thesis by blast
qed

lemma chunk_duration_half_second: "chunk_duration half_second = 1 / 2"
  by (simp add: chunk_duration_def chunk_frames_half_second)

text \<open>
  Three chunks of half a second arrive 0.4 seconds apart, the first at device time 2 in
  the state \<open>live\<close>, whose cursor stands at 1.5: they start at 2, 2.5 and 3.
\<close>

theorem gapless_scheduling_witness:
  "\<exists>starts.
     start_times (calls (deliver
        [(half_second, 2, 9), (half_second, 12 / 5, 10), (half_second, 14 / 5, 11)] live)) = starts \<and>
     length starts = 3 \<and> starts ! 0 = 2 \<and> starts ! 1 = 5 / 2 \<and> starts ! 2 = 3"
proof -
  let ?rest = "[(half_second, 12 / 5 :: real, 10 :: nat), (half_second, 14 / 5, 11)]"
  have ctx: "outputAudioContextRef live = Some 2" and cur: "nextStartTimeRef live = 3 / 2"
    and none: "start_times (calls live) = []"
    by (simp_all add: live_def mounted_def)
  have plain: "\<not> interrupted half_second" by (simp add: half_second_def)
  have valid: "\<forall>x \<in> set ((half_second, 2 :: real, 9 :: nat) # ?rest).
      chunk_frames (fst x) \<noteq> None \<and> \<not> interrupted (fst x)"
    by (simp add: chunk_frames_half_second plain)
  let ?s1 = "snd (onmessage half_second 2 9 live)"
  have s1: "outputAudioContextRef ?s1 = Some 2" "nextStartTimeRef ?s1 = 5 / 2"
    by (simp_all add: onmessage_half_second [OF ctx] ctx cur)
  let ?s2 = "snd (onmessage half_second (12 / 5) 10 ?s1)"
  have s2: "nextStartTimeRef ?s2 = 3"
    by (simp add: onmessage_half_second [OF s1(1)] s1(2))
  have timely: "in_time ?rest ?s1"
    by (simp add: s1(2) s2)
  from gapless_scheduling [OF ctx valid timely]
  obtain starts where
    st: "start_times (calls (deliver ((half_second, 2, 9) # ?rest) live)) =
         start_times (calls live) @ starts"
    and len: "length starts = Suc (length ?rest)"
    and first: "starts ! 0 = max 2 (nextStartTimeRef live)"
    and step: "\<forall>i < length ?rest. starts ! Suc i =
         starts ! i + chunk_duration (fst (((half_second, 2, 9) # ?rest) ! i))"
    by blast
  from first cur have f: "starts ! 0 = 2" by simp
  from step have "starts ! Suc 0 = starts ! 0 + chunk_duration half_second"
    by (rule allE [of _ 0]) simp
  with f have g: "starts ! 1 = 5 / 2"
    by (simp add: chunk_duration_half_second)
  from step have "starts ! Suc 1 = starts ! 1 + chunk_duration half_second"
    by (rule allE [of _ 1]) simp
  with g have h: "starts ! 2 = 3"
    by (simp add: chunk_duration_half_second numeral_2_eq_2)
  from st none len f g h show ?thesis by simp
qed

end
